theory Spec2Isabelle
  imports Main "HOL-Library.Sublist" "HOL-Library.Word"
begin

section \<open>Go strings and the library calls the drivers make\<close>

text \<open>
  A Go string is a byte sequence: \<open>string\<close> (a \<open>char list\<close>, one \<open>char\<close> per byte).
  The regular expressions of the drivers are those of Go's \<open>regexp\<close> (RE2 syntax):
  \<open>\d\<close> is \<open>[0-9]\<close>, \<open>\w\<close> is \<open>[0-9A-Za-z_]\<close>, \<open>\s\<close> is \<open>[\t\n\f\r ]\<close>, all ASCII only, so
  a byte of a multi-byte UTF-8 sequence is in none of them and is in every negated class
  (what the flag \<open>(?i)\<close> adds to \<open>\w\<close> is told with the ClickHouse patterns).
\<close>

definition is_digit :: "char \<Rightarrow> bool" where
  "is_digit c = (c \<in> set ''0123456789'')"

definition is_word :: "char \<Rightarrow> bool" where
  "is_word c =
     (c \<in> set ''0123456789abcdefghijklmnopqrstuvwxyzABCDEFGHIJKLMNOPQRSTUVWXYZ_'')"

definition is_space :: "char \<Rightarrow> bool" where
  "is_space c = (c \<in> set [CHR 0x09, CHR 0x0A, CHR 0x0C, CHR 0x0D, CHR '' ''])"

text \<open>\<open>strings.Contains(s, sub)\<close>: \<open>sub\<close> occurs in \<open>s\<close> as a contiguous run.\<close>

definition Contains :: "string \<Rightarrow> string \<Rightarrow> bool" where
  "Contains s sub = sublist sub s"

text \<open>\<open>strings.Join(elems, sep)\<close>.\<close>

fun Join :: "string list \<Rightarrow> string \<Rightarrow> string" where
  "Join [] sep = []"
| "Join [x] sep = x"
| "Join (x # y # ys) sep = x @ sep @ Join (y # ys) sep"

text \<open>
  \<open>fmt.Sprintf("%d", n)\<close> for a non-negative \<open>n\<close>: the decimal digits, most significant
  first, no leading zero.
\<close>

definition digit_char :: "nat \<Rightarrow> char" where
  "digit_char d = ''0123456789'' ! d"

function dec :: "nat \<Rightarrow> string" where
  "dec n = (if n < 10 then [digit_char n] else dec (n div 10) @ [digit_char (n mod 10)])"
  by pat_completeness auto
termination
  by (relation "measure id") auto

declare dec.simps [simp del]

text \<open>
  \<open>gregex.ReplaceStringFunc(`\?`, sql, f)\<close> with the closure
  \<open>index++; return fmt.Sprintf(`$%d`, index)\<close> of both drivers. The pattern matches exactly
  one byte \<open>?\<close>; the matches are found left to right and do not overlap; the closure is
  called once per match, so \<open>index\<close> is threaded through the scan. \<open>index\<close> is a Go
  \<open>int\<close>; it counts bytes of one string and cannot reach \<open>2^63\<close>, so it is a \<open>nat\<close> here.
\<close>

fun replace_placeholders :: "nat \<Rightarrow> string \<Rightarrow> string" where
  "replace_placeholders index [] = []"
| "replace_placeholders index (c # cs) =
     (if c = CHR ''?''
      then (let index' = index + 1
            in CHR ''$'' # dec index' @ replace_placeholders index' cs)
      else c # replace_placeholders index cs)"

text \<open>
  The numbering as the specification words it, to compare \<open>replace_placeholders\<close> with:
  a statement is its segments between the placeholders, joined by \<open>?\<close>
  (\<open>Join segs ''?''\<close>); with the \<open>i\<close>-th placeholder replaced by the marker \<open>$i\<close> it is the
  same segments joined by the markers \<open>$i\<close>, \<open>$(i+1)\<close>, ... in this order.
\<close>

fun spec_numbered :: "nat \<Rightarrow> string list \<Rightarrow> string" where
  "spec_numbered i [] = []"
| "spec_numbered i [seg] = seg"
| "spec_numbered i (seg # seg' # segs) =
     seg @ ''$'' @ dec i @ spec_numbered (i + 1) (seg' # segs)"

text \<open>The bytes markers are made of: the dollar sign and the decimal digits.\<close>

definition marker_byte :: "char \<Rightarrow> bool" where
  "marker_byte c = (c = CHR ''$'' \<or> is_digit c)"

text \<open>
  The package \<open>gregex\<close> wraps Go's \<open>regexp\<close> (it is not among the source files):
  \<open>gregex.ReplaceStringFuncMatch\<close> and \<open>gregex.ReplaceString\<close> are Go's
  \<open>Regexp.ReplaceAllFunc\<close> and \<open>Regexp.ReplaceAll\<close>: the text is scanned left to right; at
  each position the pattern is tried; a match is replaced and the scan goes on behind it, so
  matches do not overlap; a byte where no match starts is copied. \<open>m s\<close> is the pattern
  tried at the start of \<open>s\<close>: \<open>Some (replacement, rest)\<close> with \<open>rest\<close> the text behind the
  match. Every pattern of the drivers matches at least one byte; the inner \<open>else\<close> (a match
  that consumes nothing: the replacement, then one byte copied) is never taken by them.
\<close>

function replace_all :: "(string \<Rightarrow> (string \<times> string) option) \<Rightarrow> string \<Rightarrow> string" where
  "replace_all m s =
     (case m s of
        Some (repl, rest) \<Rightarrow>
          (if length rest < length s then repl @ replace_all m rest
           else (case s of [] \<Rightarrow> repl | c # cs \<Rightarrow> repl @ c # replace_all m cs))
      | None \<Rightarrow> (case s of [] \<Rightarrow> [] | c # cs \<Rightarrow> c # replace_all m cs))"
  by pat_completeness auto
termination
  by (relation "measure (\<lambda>(m, s). length s)") auto

declare replace_all.simps [simp del]

text \<open>
  \<open>strings.TrimSpace\<close>: leading and trailing white space removed, as \<open>unicode.IsSpace\<close>
  defines it: U+0009 to U+000D, U+0020, U+0085, U+00A0, U+1680, U+2000 to U+200A, U+2028,
  U+2029, U+202F, U+205F and U+3000, here in their UTF-8 encodings. A trailing rune is a
  leading one of the reversed text, with its bytes reversed.
\<close>

definition space_runes :: "string list" where
  "space_runes =
     [[CHR 0x09], [CHR 0x0A], [CHR 0x0B], [CHR 0x0C], [CHR 0x0D], [CHR 0x20],
      [CHR 0xC2, CHR 0x85], [CHR 0xC2, CHR 0xA0], [CHR 0xE1, CHR 0x9A, CHR 0x80],
      [CHR 0xE2, CHR 0x80, CHR 0x80], [CHR 0xE2, CHR 0x80, CHR 0x81],
      [CHR 0xE2, CHR 0x80, CHR 0x82], [CHR 0xE2, CHR 0x80, CHR 0x83],
      [CHR 0xE2, CHR 0x80, CHR 0x84], [CHR 0xE2, CHR 0x80, CHR 0x85],
      [CHR 0xE2, CHR 0x80, CHR 0x86], [CHR 0xE2, CHR 0x80, CHR 0x87],
      [CHR 0xE2, CHR 0x80, CHR 0x88], [CHR 0xE2, CHR 0x80, CHR 0x89],
      [CHR 0xE2, CHR 0x80, CHR 0x8A], [CHR 0xE2, CHR 0x80, CHR 0xA8],
      [CHR 0xE2, CHR 0x80, CHR 0xA9], [CHR 0xE2, CHR 0x80, CHR 0xAF],
      [CHR 0xE2, CHR 0x81, CHR 0x9F], [CHR 0xE3, CHR 0x80, CHR 0x80]]"

fun strip_rune :: "string list \<Rightarrow> string \<Rightarrow> string option" where
  "strip_rune [] s = None"
| "strip_rune (r # rs) s =
     (if r \<noteq> [] \<and> take (length r) s = r then Some (drop (length r) s) else strip_rune rs s)"

lemma strip_rune_shorter: "strip_rune rs s = Some t \<Longrightarrow> length t < length s"
proof (induction rs)
  case Nil
  then show ?case by simp
next
  case (Cons r rs)
  show ?case
  proof (cases "r \<noteq> [] \<and> take (length r) s = r")
    case True
    then have "s \<noteq> []" and "0 < length r" by auto
    moreover from True Cons.prems have "t = drop (length r) s" by simp
    ultimately show ?thesis by simp
  next
    case False
    with Cons show ?thesis by auto
  qed
qed

function trim_runes :: "string list \<Rightarrow> string \<Rightarrow> string" where
  "trim_runes rs s = (case strip_rune rs s of None \<Rightarrow> s | Some t \<Rightarrow> trim_runes rs t)"
  by pat_completeness auto
termination
  by (relation "measure (\<lambda>(rs, s). length s)") (auto simp: strip_rune_shorter)

declare trim_runes.simps [simp del]

definition TrimSpace :: "string \<Rightarrow> string" where
  "TrimSpace s = rev (trim_runes (map rev space_runes) (rev (trim_runes space_runes s)))"

text \<open>
  Matching a literal under the flag \<open>(?i)\<close>. Go folds case by Unicode simple folding; of the
  letters the patterns use, only \<open>S\<close> has a fold outside ASCII: U+017F (long s, the bytes
  C5 BF). \<open>ci_prefix lit s\<close> is for an upper-case literal without \<open>S\<close> and \<open>K\<close>.
  \<open>strings.ToUpper\<close> is applied by the driver to a match of \<open>UPDATE\<close> or \<open>DELETE\<close> only,
  which is ASCII, where it maps \<open>a\<close>..\<open>z\<close> to \<open>A\<close>..\<open>Z\<close>.
\<close>

definition ascii_upper :: "char \<Rightarrow> char" where
  "ascii_upper c =
     (case map_of (zip ''abcdefghijklmnopqrstuvwxyz'' ''ABCDEFGHIJKLMNOPQRSTUVWXYZ'') c of
        Some u \<Rightarrow> u | None \<Rightarrow> c)"

definition ToUpper :: "string \<Rightarrow> string" where
  "ToUpper s = map ascii_upper s"

definition ci_prefix :: "string \<Rightarrow> string \<Rightarrow> bool" where
  "ci_prefix lit s = (length lit \<le> length s \<and> map ascii_upper (take (length lit) s) = lit)"

definition match_SET :: "string \<Rightarrow> string option" where
  "match_SET s =
     (if ci_prefix ''SET'' s then Some (drop 3 s)
      else if take 2 s = [CHR 0xC5, CHR 0xBF] \<and> ci_prefix ''ET'' (drop 2 s)
      then Some (drop 4 s)
      else None)"

section \<open>Values, errors and contexts\<close>

text \<open>
  \<open>time.Time\<close>: \<open>IsZero\<close> reports whether the seconds and the nanoseconds since
  January 1, year 1, 00:00:00 UTC are both zero.
\<close>

record go_time =
  t_sec :: int
  t_nsec :: int

definition IsZero :: "go_time \<Rightarrow> bool" where
  "IsZero t = (t_sec t = 0 \<and> t_nsec t = 0)"

datatype go_error =
    ErrorNew string
  | CodeNotSupported string
  | CodeDbOperationError string
  | BackendError string

text \<open>
  An \<open>interface{}\<close> value, by the shapes the type switch of \<open>ConvertValueForField\<close> tells
  apart. A pointer is an \<open>option\<close> (\<open>None\<close> the nil pointer). \<open>gtime.Time\<close> embeds a
  \<open>time.Time\<close> (its field \<open>Time\<close>). \<open>VValuer r\<close> is a value of any other type that implements
  \<open>driver.Valuer\<close>, \<open>r\<close> what its method \<open>Value()\<close> returns; the remaining constructors
  are values that do not implement it.
\<close>

datatype go_value =
    VNil
  | VBool bool
  | VInt int
  | VString string
  | VTime go_time
  | VTimePtr "go_time option"
  | VGTime go_time
  | VGTimePtr "go_time option"
  | VUUID string
  | VDecimal string
  | VDecimalPtr "string option"
  | VValuer "go_error + go_value"

text \<open>
  A \<open>context.Context\<close>, as far as \<open>ctx.Value(key)\<close> reads it: the value stored under a key,
  \<open>None\<close> where \<open>Value\<close> returns nil.
\<close>

text \<open>
  \<open>gdb.TableField\<close>, with the fields the drivers fill. \<open>Index\<close> is a Go \<open>int\<close>: 64 bits,
  two's complement, arithmetic wraps.
\<close>

record TableField =
  Index :: "64 word"
  Name :: string
  Type :: string
  Null :: bool
  Key :: string
  Default :: go_value
  Comment :: string

datatype ctx_value = CtxBool bool | CtxTableField TableField | CtxOther go_value

type_synonym go_context = "string \<rightharpoonup> ctx_value"

text \<open>A call either returns or panics (an index out of range).\<close>

datatype 'a outcome = Panics | Returns 'a

section \<open>The ClickHouse driver (clickhouse.go)\<close>

definition errUnsupportedInsertIgnore :: go_error where
  "errUnsupportedInsertIgnore = ErrorNew ''unsupported method:InsertIgnore''"

definition errUnsupportedInsertGetId :: go_error where
  "errUnsupportedInsertGetId = ErrorNew ''unsupported method:InsertGetId''"

definition errUnsupportedReplace :: go_error where
  "errUnsupportedReplace = ErrorNew ''unsupported method:Replace''"

definition errUnsupportedBegin :: go_error where
  "errUnsupportedBegin = ErrorNew ''unsupported method:Begin''"

definition errUnsupportedTransaction :: go_error where
  "errUnsupportedTransaction = ErrorNew ''unsupported method:Transaction''"

definition needParsedSqlInCtx :: string where
  "needParsedSqlInCtx = ''NeedParsedSql''"

definition injectNeedParsedSql :: "go_context \<Rightarrow> go_context" where
  "injectNeedParsedSql ctx =
     (if ctx needParsedSqlInCtx \<noteq> None then ctx
      else ctx(needParsedSqlInCtx \<mapsto> CtxBool True))"

definition getNeedParsedSqlFromCtx :: "go_context \<Rightarrow> bool" where
  "getNeedParsedSqlFromCtx ctx = (if ctx needParsedSqlInCtx \<noteq> None then True else False)"

subsection \<open>The patterns of DoFilter\<close>

text \<open>
  \<open>filterTypePattern = `(?i)^UPDATE|DELETE`\<close>, in \<open>gregex.MatchString\<close>: the leftmost match.
  The alternation binds weaker than the anchor: \<open>UPDATE\<close> at the start of the text, or
  \<open>DELETE\<close> anywhere. At the start \<open>UPDATE\<close> is tried first. The result \<open>modeRes\<close> is the
  matched text alone (the pattern has no group), \<open>None\<close> for the empty slice.
\<close>

fun first_DELETE :: "string \<Rightarrow> string option" where
  "first_DELETE [] = None"
| "first_DELETE (c # cs) =
     (if ci_prefix ''DELETE'' (c # cs) then Some (take 6 (c # cs)) else first_DELETE cs)"

definition match_filterType :: "string \<Rightarrow> string option" where
  "match_filterType s = (if ci_prefix ''UPDATE'' s then Some (take 6 s) else first_DELETE s)"

text \<open>
  Under \<open>(?i)\<close> Go closes a class under case folding as well: \<open>\w\<close> holds, besides
  \<open>[0-9A-Za-z_]\<close>, the two characters that fold to \<open>s\<close> and \<open>k\<close>, U+017F (bytes C5 BF) and
  U+212A (bytes E2 84 AA). \<open>word_rune s\<close> is the character of this class at the head of
  \<open>s\<close>, \<open>word_runes s\<close> the longest run of such characters there.
\<close>

definition word_rune :: "string \<Rightarrow> string option" where
  "word_rune s =
     (if s \<noteq> [] \<and> is_word (hd s) then Some [hd s]
      else if prefix [CHR 0xC5, CHR 0xBF] s then Some [CHR 0xC5, CHR 0xBF]
      else if prefix [CHR 0xE2, CHR 0x84, CHR 0xAA] s then Some [CHR 0xE2, CHR 0x84, CHR 0xAA]
      else None)"

lemma word_rune_shorter: "word_rune s = Some u \<Longrightarrow> length s - length u < length s"
  by (cases s) (auto simp: word_rune_def split: if_splits)

function word_runes :: "string \<Rightarrow> string list" where
  "word_runes s =
     (case word_rune s of None \<Rightarrow> [] | Some u \<Rightarrow> u # word_runes (drop (length u) s))"
  by pat_completeness auto
termination
  by (relation "measure length") (auto simp: word_rune_shorter)

declare word_runes.simps [simp del]

text \<open>
  The group \<open>(\w+[\.]?\w+)\<close> at the start of \<open>s\<close>: the name and the text behind it. \<open>\w+\<close>
  is greedy and takes the whole run \<open>w1\<close> of word characters. If a dot and a word character
  follow, the name is \<open>w1.w2\<close> with \<open>w2\<close> the whole second run. Otherwise the engine
  backtracks and splits \<open>w1\<close> between the two \<open>\w+\<close>, which needs two characters: a name
  of one character does not match.
\<close>

definition match_table :: "string \<Rightarrow> (string \<times> string) option" where
  "match_table s =
     (let w1 = word_runes s; r = drop (length (concat w1)) s;
          w2 = word_runes (drop 1 r)
      in if w1 = [] then None
         else if prefix ''.'' r \<and> w2 \<noteq> []
         then Some (concat w1 @ ''.'' @ concat w2, drop (length (concat w2)) (drop 1 r))
         else if 2 \<le> length w1 then Some (concat w1, r)
         else None)"

text \<open>
  \<open>updateFilterPattern = `(?i)UPDATE[\s]+?(\w+[\.]?\w+)[\s]+?SET`\<close> at the start of \<open>s\<close>:
  group 1 and the text behind the match. \<open>[\s]+?\<close> is lazy, but a word character (or
  \<open>S\<close>) must follow it, so it takes the whole run of white space, which must not be
  empty. Where the name \<open>w1.w2\<close> is not followed by white space and \<open>SET\<close>, no other
  split of the name is: the shorter name \<open>w1\<close> is followed by the dot.
\<close>

definition match_update :: "string \<Rightarrow> (string \<times> string) option" where
  "match_update s =
     (if ci_prefix ''UPDATE'' s \<and> takeWhile is_space (drop 6 s) \<noteq> [] then
        (case match_table (dropWhile is_space (drop 6 s)) of
           None \<Rightarrow> None
         | Some (name, r) \<Rightarrow>
             (if takeWhile is_space r \<noteq> [] then
                (case match_SET (dropWhile is_space r) of
                   None \<Rightarrow> None
                 | Some rest \<Rightarrow> Some (name, rest))
              else None))
      else None)"

text \<open>\<open>deleteFilterPattern = `(?i)DELETE[\s]+?FROM[\s]+?(\w+[\.]?\w+)`\<close> at the start of \<open>s\<close>.\<close>

definition match_delete :: "string \<Rightarrow> (string \<times> string) option" where
  "match_delete s =
     (if ci_prefix ''DELETE'' s \<and> takeWhile is_space (drop 6 s) \<noteq> []
         \<and> ci_prefix ''FROM'' (dropWhile is_space (drop 6 s))
         \<and> takeWhile is_space (drop 4 (dropWhile is_space (drop 6 s))) \<noteq> []
      then match_table (dropWhile is_space (drop 4 (dropWhile is_space (drop 6 s))))
      else None)"

text \<open>
  The two calls of \<open>gregex.ReplaceStringFuncMatch\<close>: every match in the statement is
  replaced by \<open>fmt.Sprintf("ALTER TABLE %s UPDATE", s[1])\<close> (or \<open>DELETE\<close>).
\<close>

definition replace_update :: "string \<Rightarrow> string" where
  "replace_update sql =
     replace_all (\<lambda>s. map_option (\<lambda>(name, rest). (''ALTER TABLE '' @ name @ '' UPDATE'', rest))
                        (match_update s)) sql"

definition replace_delete :: "string \<Rightarrow> string" where
  "replace_delete sql =
     replace_all (\<lambda>s. map_option (\<lambda>(name, rest). (''ALTER TABLE '' @ name @ '' DELETE'', rest))
                        (match_delete s)) sql"

subsection \<open>DoFilter\<close>

text \<open>
  The part of \<open>DoFilter\<close> behind the comment \<open>replace STD SQL to Clickhouse SQL grammar\<close>:
  the statement type is read off the trimmed statement, the rewrite is applied to the
  statement as it is. The three patterns are constants that compile, so the error returns
  behind the \<open>gregex\<close> calls are not taken.
\<close>

definition rewrite_grammar :: "string \<Rightarrow> string" where
  "rewrite_grammar originSql =
     (case match_filterType (TrimSpace originSql) of
        None \<Rightarrow> originSql
      | Some mode \<Rightarrow>
          (if ToUpper mode = ''UPDATE'' then replace_update originSql
           else if ToUpper mode = ''DELETE'' then replace_delete originSql
           else originSql))"

text \<open>
  \<open>Driver.DoFilter(ctx, link, originSql, args)\<close>; \<open>link\<close> is not used. The result is
  \<open>Inr (newSql, newArgs)\<close> for a nil error.
\<close>

definition DoFilter_ch ::
  "go_context \<Rightarrow> string \<Rightarrow> 'a list \<Rightarrow> go_error + (string \<times> 'a list)" where
  "DoFilter_ch ctx originSql args =
     (if length args = 0 then Inr (originSql, args)
      else
        (let originSql' = replace_placeholders 0 originSql
         in if \<not> getNeedParsedSqlFromCtx ctx then Inr (originSql', args)
            else Inr (rewrite_grammar originSql', args)))"

subsection \<open>DoInsert: the emulated batch insert\<close>

text \<open>
  What the driver asks of the transaction layer is recorded as a trace of events. The
  layer's answers are parameters: whether \<open>d.Core.Begin\<close> fails, whether \<open>tx.Prepare\<close> fails
  for a statement, and what the \<open>i\<close>-th call of \<open>stmt.ExecContext\<close> returns for its
  parameters: an error (with a nil result) or a result. The results of \<open>tx.Commit\<close> and
  \<open>tx.Rollback\<close> are discarded by the code.
\<close>

datatype ch_event =
    EvBegin
  | EvPrepare string
  | EvExec "go_value list"
  | EvCommit
  | EvRollback

record 'r tx_layer =
  Begin_err :: "go_error option"
  Prepare_err :: "string \<Rightarrow> go_error option"
  ExecContext :: "nat \<Rightarrow> go_value list \<Rightarrow> go_error + 'r"

text \<open>
  \<open>d.Core.GetChars()\<close> and \<open>d.QuotePrefixTableName\<close> belong to \<open>gdb.Core\<close>; they are
  parameters.
\<close>

record core_quoting =
  charL :: string
  charR :: string
  QuotePrefixTableName :: "string \<Rightarrow> string"

text \<open>
  A row \<open>map[string]interface{}\<close> of \<open>gdb.List\<close> is an association list with distinct keys;
  for \<open>list[0]\<close> its order is the order in which \<open>range\<close> yields the keys (Go leaves it
  open). \<open>list[i][k]\<close> is nil for a key the row does not have.
\<close>

type_synonym row = "(string \<times> go_value) list"

definition row_get :: "row \<Rightarrow> string \<Rightarrow> go_value" where
  "row_get r k = (case map_of r k of None \<Rightarrow> VNil | Some v \<Rightarrow> v)"

definition insert_statement :: "core_quoting \<Rightarrow> string \<Rightarrow> string list \<Rightarrow> string" where
  "insert_statement q table keys =
     (let valueHolder = map (\<lambda>k. ''?'') keys;
          keysStr = charL q @ Join keys (charR q @ '','' @ charL q) @ charR q;
          holderStr = Join valueHolder '',''
      in ''INSERT INTO '' @ QuotePrefixTableName q table @ ''('' @ keysStr @ '') VALUES (''
           @ holderStr @ '')'')"

text \<open>
  The loop \<open>for i := 0; i < len(list); i++\<close>, from row \<open>i\<close> on: \<open>rows\<close> are the rows not
  yet executed, \<open>result\<close> the last result. It returns \<open>(result, err)\<close> and the events.
\<close>

fun exec_rows ::
  "'r tx_layer \<Rightarrow> string list \<Rightarrow> nat \<Rightarrow> row list \<Rightarrow> 'r option
   \<Rightarrow> ('r option \<times> go_error option) \<times> ch_event list" where
  "exec_rows tx keys i [] result = ((result, None), [])"
| "exec_rows tx keys i (r # rows) result =
     (let params = map (row_get r) keys
      in case ExecContext tx i params of
           Inl err \<Rightarrow> ((None, Some err), [EvExec params])
         | Inr res \<Rightarrow>
             (let (out, evs) = exec_rows tx keys (i + 1) rows (Some res)
              in (out, EvExec params # evs)))"

text \<open>
  \<open>Driver.DoInsert(ctx, link, table, list, option)\<close>. \<open>list[0]\<close> panics on an empty list. The
  deferred function is registered once \<open>Begin\<close> has succeeded and runs on every return
  behind it: \<open>Commit\<close> if \<open>err\<close> is nil, \<open>Rollback\<close> otherwise.
\<close>

definition DoInsert_ch ::
  "'r tx_layer \<Rightarrow> core_quoting \<Rightarrow> string \<Rightarrow> row list
   \<Rightarrow> (('r option \<times> go_error option) \<times> ch_event list) outcome" where
  "DoInsert_ch tx q table list =
     (case list of
        [] \<Rightarrow> Panics
      | row0 # _ \<Rightarrow>
          (let keys = map fst row0
           in case Begin_err tx of
                Some err \<Rightarrow> Returns ((None, Some err), [EvBegin])
              | None \<Rightarrow>
                  (let stmt = insert_statement q table keys;
                       ((result, err), evs) =
                         (case Prepare_err tx stmt of
                            Some err \<Rightarrow> ((None, Some err), [])
                          | None \<Rightarrow> exec_rows tx keys 0 list None)
                   in Returns ((result, err),
                        [EvBegin, EvPrepare stmt] @ evs
                          @ [if err = None then EvCommit else EvRollback]))))"

text \<open>
  The parameter rows a trace has committed: those executed before an \<open>EvCommit\<close>, none
  when the transaction was rolled back or left open.
\<close>

definition committed_rows :: "ch_event list \<Rightarrow> go_value list list" where
  "committed_rows evs =
     (if EvCommit \<in> set evs
      then concat (map (\<lambda>e. case e of EvExec ps \<Rightarrow> [ps] | _ \<Rightarrow> []) evs)
      else [])"

subsection \<open>ConvertValueForField\<close>

text \<open>
  \<open>Driver.ConvertValueForField(ctx, fieldType, fieldValue)\<close>: the type switch, case by case
  in the order of the source. A case that does not return falls out of the switch to the
  final \<open>return fieldValue, nil\<close>. The result is \<open>Inr v\<close> for \<open>(v, nil)\<close>.
\<close>

fun ConvertValueForField :: "string \<Rightarrow> go_value \<Rightarrow> go_error + go_value" where
  "ConvertValueForField fieldType (VTime itemValue) =
     (if IsZero itemValue then Inr VNil else Inr (VTime itemValue))"
| "ConvertValueForField fieldType (VUUID itemValue) = Inr (VUUID itemValue)"
| "ConvertValueForField fieldType (VTimePtr itemValue) =
     (if itemValue = None \<or> IsZero (the itemValue) then Inr VNil else Inr (VTimePtr itemValue))"
| "ConvertValueForField fieldType (VGTime itemValue) =
     (if IsZero itemValue then Inr VNil else Inr (VTime itemValue))"
| "ConvertValueForField fieldType (VGTimePtr itemValue) =
     (if itemValue \<noteq> None then Inr (VTime (the itemValue))
      else if itemValue = None \<or> IsZero (the itemValue) then Inr VNil
      else Inr (VGTimePtr itemValue))"
| "ConvertValueForField fieldType (VDecimal itemValue) = Inr (VDecimal itemValue)"
| "ConvertValueForField fieldType (VDecimalPtr itemValue) =
     (if itemValue \<noteq> None then Inr (VDecimal (the itemValue)) else Inr VNil)"
| "ConvertValueForField fieldType (VValuer r) =
     (case r of Inl err \<Rightarrow> Inl err | Inr convertedValue \<Rightarrow> Inr convertedValue)"
| "ConvertValueForField fieldType itemValue = Inr itemValue"

subsection \<open>The unsupported methods\<close>

text \<open>
  Each takes its arguments and returns at once; the second component is the trace of what
  it asked of the transaction layer. \<open>f\<close> is the callback of \<open>Transaction\<close>.
\<close>

definition InsertIgnore ::
  "go_context \<Rightarrow> string \<Rightarrow> 'd \<Rightarrow> int list \<Rightarrow> ('r option \<times> go_error option) \<times> ch_event list" where
  "InsertIgnore ctx table data batch = ((None, Some errUnsupportedInsertIgnore), [])"

definition InsertAndGetId ::
  "go_context \<Rightarrow> string \<Rightarrow> 'd \<Rightarrow> int list \<Rightarrow> (int \<times> go_error option) \<times> ch_event list" where
  "InsertAndGetId ctx table data batch = ((0, Some errUnsupportedInsertGetId), [])"

definition Replace ::
  "go_context \<Rightarrow> string \<Rightarrow> 'd \<Rightarrow> int list \<Rightarrow> ('r option \<times> go_error option) \<times> ch_event list" where
  "Replace ctx table data batch = ((None, Some errUnsupportedReplace), [])"

definition Begin :: "go_context \<Rightarrow> ('t option \<times> go_error option) \<times> ch_event list" where
  "Begin ctx = ((None, Some errUnsupportedBegin), [])"

definition Transaction ::
  "go_context \<Rightarrow> (go_context \<Rightarrow> 't \<Rightarrow> go_error option) \<Rightarrow> go_error option \<times> ch_event list" where
  "Transaction ctx f = (Some errUnsupportedTransaction, [])"

subsection \<open>TableFields\<close>

text \<open>
  A row of the catalog query, as the loop reads it: \<open>m["name"].String()\<close>,
  \<open>m["position"].Int()\<close>, \<open>m["default_expression"].Val()\<close>, \<open>m["comment"].String()\<close> and
  \<open>m["type"].String()\<close>.
\<close>

record ch_column =
  col_name :: string
  col_position :: "64 word"
  col_default :: go_value
  col_comment :: string
  col_type :: string

text \<open>
  \<open>gregex.MatchString(`^Nullable\((.*?)\)`, fieldType)\<close>: the text between \<open>Nullable(\<close> at the
  start and the first closing parenthesis, which \<open>.*?\<close> reaches unless a newline is in
  between. The result has two elements when the pattern matches, none otherwise.
\<close>

definition match_Nullable :: "string \<Rightarrow> string option" where
  "match_Nullable fieldType =
     (let r = drop 9 fieldType; inner = takeWhile (\<lambda>c. c \<noteq> CHR '')'') r
      in if prefix ''Nullable('' fieldType \<and> dropWhile (\<lambda>c. c \<noteq> CHR '')'') r \<noteq> []
            \<and> CHR 0x0A \<notin> set inner
         then Some inner else None)"

text \<open>The body of the loop over \<open>result\<close>, for the row \<open>m\<close>; \<open>first\<close> is \<open>result[0]\<close>.\<close>

definition ch_field :: "ch_column \<Rightarrow> ch_column \<Rightarrow> TableField" where
  "ch_field first m =
     (let (isNull, fieldType) =
            (case match_Nullable (col_type m) of
               Some inner \<Rightarrow> (True, inner)
             | None \<Rightarrow> (False, col_type m));
          position = col_position m;
          position' = (if col_position first \<noteq> 0 then position - 1 else position)
      in \<lparr>Index = position', Name = col_name m, Type = fieldType, Null = isNull,
          Key = [], Default = col_default m, Comment = col_comment m\<rparr>)"

fun ch_fields_loop ::
  "ch_column \<Rightarrow> ch_column list \<Rightarrow> (string \<rightharpoonup> TableField) \<Rightarrow> (string \<rightharpoonup> TableField)" where
  "ch_fields_loop first [] flds = flds"
| "ch_fields_loop first (m # ms) flds =
     ch_fields_loop first ms (flds(col_name m \<mapsto> ch_field first m))"

text \<open>
  The loop of \<open>TableFields\<close> over \<open>result\<close>, from \<open>fields = make(...)\<close> on. With no row
  the loop body, and so \<open>result[0]\<close>, is never evaluated.
\<close>

definition ch_fields :: "ch_column list \<Rightarrow> (string \<rightharpoonup> TableField)" where
  "ch_fields result =
     (case result of [] \<Rightarrow> Map.empty | first # _ \<Rightarrow> ch_fields_loop first result Map.empty)"

text \<open>
  \<open>Driver.TableFields\<close>: \<open>link_err\<close> is the error of \<open>d.SlaveLink\<close> (if any), \<open>selected\<close>
  what \<open>d.DoSelect\<close> returns for the catalog query.
\<close>

definition TableFields_ch ::
  "go_error option \<Rightarrow> go_error + ch_column list \<Rightarrow> go_error + (string \<rightharpoonup> TableField)" where
  "TableFields_ch link_err selected =
     (case link_err of
        Some err \<Rightarrow> Inl err
      | None \<Rightarrow>
          (case selected of
             Inl err \<Rightarrow> Inl err
           | Inr result \<Rightarrow> Inr (ch_fields result)))"

section \<open>The PostgreSQL driver (pgsql.go)\<close>

subsection \<open>DoFilter\<close>

text \<open>
  The pattern \<open>`(::jsonb([^\w\d]*)\$\d)`\<close> at the start of \<open>s\<close>: the replacement
  \<open>fmt.Sprintf(`::jsonb%s?`, match[2])\<close> and the text behind the match. \<open>[^\w\d]*\<close> is
  greedy and a dollar sign is in its class, the digit is not: the class takes the whole
  run of bytes that are neither word bytes nor digits and gives back its last byte, which
  must be the dollar sign, and exactly one digit follows. Group 2 is the run without
  that dollar sign.
\<close>

definition match_jsonb :: "string \<Rightarrow> (string \<times> string) option" where
  "match_jsonb s =
     (let r = drop 7 s;
          run = takeWhile (\<lambda>c. \<not> is_word c \<and> \<not> is_digit c) r;
          after = dropWhile (\<lambda>c. \<not> is_word c \<and> \<not> is_digit c) r
      in if prefix ''::jsonb'' s \<and> run \<noteq> [] \<and> last run = CHR ''$''
         then (case after of
                 [] \<Rightarrow> None
               | d # rest \<Rightarrow>
                   if is_digit d then Some (''::jsonb'' @ butlast run @ ''?'', rest) else None)
         else None)"

text \<open>
  The pattern \<open>` LIMIT (\d+),\s*(\d+)`\<close> at the start of \<open>s\<close>, with the template
  \<open>` LIMIT $2 OFFSET $1`\<close>. Each of \<open>\d+\<close> and \<open>\s*\<close> is greedy and is followed by a byte
  outside its class, so each takes its whole run; the two runs of digits must not be
  empty.
\<close>

definition match_limit :: "string \<Rightarrow> (string \<times> string) option" where
  "match_limit s =
     (let r = drop 7 s;
          a = takeWhile is_digit r;
          r' = dropWhile is_space (drop 1 (dropWhile is_digit r));
          b = takeWhile is_digit r'
      in if prefix '' LIMIT '' s \<and> a \<noteq> [] \<and> prefix '','' (dropWhile is_digit r)
            \<and> b \<noteq> []
         then Some ('' LIMIT '' @ b @ '' OFFSET '' @ a, dropWhile is_digit r')
         else None)"

text \<open>
  Modelled from the spec: \<open>gdb.Core.DoFilter\<close>, which \<open>Driver.DoFilter\<close> calls last, is not
  among the source files. The base filter changes nothing: rewriting hands the statement
  and the parameters on, order and count preserved, with a nil error.
\<close>

definition Core_DoFilter :: "string \<Rightarrow> 'a list \<Rightarrow> go_error + (string \<times> 'a list)" where
  "Core_DoFilter sql args = Inr (sql, args)"

text \<open>\<open>Driver.DoFilter(ctx, link, sql, args)\<close>; neither \<open>ctx\<close> nor \<open>link\<close> is read.\<close>

definition DoFilter_pg :: "string \<Rightarrow> 'a list \<Rightarrow> go_error + (string \<times> 'a list)" where
  "DoFilter_pg sql args =
     (let newSql = replace_placeholders 0 sql;
          newSql = replace_all match_jsonb newSql;
          newSql = replace_all match_limit newSql
      in Core_DoFilter newSql args)"

subsection \<open>DoInsert\<close>

datatype InsertOption =
    InsertOptionDefault
  | InsertOptionReplace
  | InsertOptionSave
  | InsertOptionIgnore

definition internalPrimaryKeyInCtx :: string where
  "internalPrimaryKeyInCtx = ''primary_key''"

text \<open>
  \<open>Driver.DoInsert\<close> up to its last line: \<open>Inl\<close> the error it returns itself, \<open>Inr\<close> the
  context it hands to \<open>d.Core.DoInsert\<close>. \<open>tableFields\<close> is what \<open>TableFields(ctx, table)\<close>
  returns, the fields of the map in the order \<open>range\<close> yields them.
\<close>

definition DoInsert_pg ::
  "(go_error + TableField list) \<Rightarrow> go_context \<Rightarrow> InsertOption \<Rightarrow> go_error + go_context" where
  "DoInsert_pg tableFields ctx option =
     (case option of
        InsertOptionSave \<Rightarrow>
          Inl (CodeNotSupported ''Save operation is not supported by pgsql driver'')
      | InsertOptionReplace \<Rightarrow>
          Inl (CodeNotSupported ''Replace operation is not supported by pgsql driver'')
      | InsertOptionIgnore \<Rightarrow>
          Inl (CodeNotSupported ''Insert ignore operation is not supported by pgsql driver'')
      | InsertOptionDefault \<Rightarrow>
          (case tableFields of
             Inl err \<Rightarrow> Inr ctx
           | Inr fs \<Rightarrow>
               (case find (\<lambda>field. Key field = ''pri'') fs of
                  Some pkField \<Rightarrow> Inr (ctx(internalPrimaryKeyInCtx \<mapsto> CtxTableField pkField))
                | None \<Rightarrow> Inr ctx)))"

subsection \<open>DoExec\<close>

datatype link = Link (link_id: nat) (IsTransaction: bool)

text \<open>
  A \<open>gdb.Record\<close> maps a column name to its value; a name that is not a column of the
  record yields nil (\<open>None\<close>).
\<close>

type_synonym db_record = "string \<rightharpoonup> go_value"

text \<open>The struct \<open>Result\<close> of the driver; \<open>Result{}\<close> holds zeros and a nil error.\<close>

record pg_result =
  affected :: "64 word"
  lastInsertId :: "64 word"
  lastInsertIdError :: "go_error option"

datatype 'r sql_result = CoreResult 'r | PgResult pg_result

text \<open>
  What \<open>DoExec\<close> calls outside the driver: \<open>gdb.TXFromCtx(ctx, d.GetGroup())\<close>,
  \<open>d.MasterLink()\<close>, \<open>d.Core.DoExec\<close>, \<open>d.FormatSqlBeforeExecuting\<close>, \<open>d.DoCommit\<close> (of which
  \<open>out.Records\<close> is kept) and the method \<open>Int64()\<close> of a value. \<open>ExecTimeout\<close> only
  puts a deadline on the context.
\<close>

record 'r pg_core =
  TXFromCtx :: "link option"
  MasterLink :: "go_error + link"
  Core_DoExec :: "link \<Rightarrow> string \<Rightarrow> go_value list \<Rightarrow> go_error + 'r"
  FormatSqlBeforeExecuting :: "string \<Rightarrow> go_value list \<Rightarrow> string \<times> go_value list"
  DoCommit :: "link \<Rightarrow> string \<Rightarrow> go_value list \<Rightarrow> go_error + db_record list"
  Int64 :: "go_value \<Rightarrow> 64 word"

datatype pg_event =
    EvCoreDoExec link string "go_value list"
  | EvDoCommit link string "go_value list"

text \<open>The transaction checks at the head of \<open>DoExec\<close>: the link to use, or the error.\<close>

definition resolve_link :: "'r pg_core \<Rightarrow> link option \<Rightarrow> go_error + link" where
  "resolve_link core lnk =
     (case lnk of
        None \<Rightarrow>
          (case TXFromCtx core of
             Some tx \<Rightarrow> Inr tx
           | None \<Rightarrow> MasterLink core)
      | Some l \<Rightarrow>
          (if \<not> IsTransaction l
           then (case TXFromCtx core of Some tx \<Rightarrow> Inr tx | None \<Rightarrow> Inr l)
           else Inr l))"

text \<open>The end of \<open>DoExec\<close>, from \<open>affected := len(out.Records)\<close> on.\<close>

definition exec_result ::
  "'r pg_core \<Rightarrow> TableField \<Rightarrow> string \<Rightarrow> db_record list \<Rightarrow> pg_result" where
  "exec_result core pkField primaryKey Records =
     (let n = length Records
      in if 0 < n then
           (if \<not> Contains (Type pkField) ''int'' then
              \<lparr>affected = of_nat n, lastInsertId = 0,
               lastInsertIdError = Some (CodeNotSupported
                 (''LastInsertId is not supported by primary key type: '' @ Type pkField))\<rparr>
            else
              (case (Records ! (n - 1)) primaryKey of
                 Some v \<Rightarrow>
                   \<lparr>affected = of_nat n, lastInsertId = Int64 core v, lastInsertIdError = None\<rparr>
               | None \<Rightarrow> \<lparr>affected = 0, lastInsertId = 0, lastInsertIdError = None\<rparr>))
         else \<lparr>affected = 0, lastInsertId = 0, lastInsertIdError = None\<rparr>)"

text \<open>
  \<open>Driver.DoExec(ctx, link, sql, args)\<close>: the result and the calls made to the execution
  layer. \<open>d.DoFilter\<close> is the driver's own \<open>DoFilter\<close>.
\<close>

definition DoExec_pg ::
  "'r pg_core \<Rightarrow> go_context \<Rightarrow> link option \<Rightarrow> string \<Rightarrow> go_value list
   \<Rightarrow> (go_error + 'r sql_result) \<times> pg_event list" where
  "DoExec_pg core ctx lnk sql args =
     (case resolve_link core lnk of
        Inl err \<Rightarrow> (Inl err, [])
      | Inr l \<Rightarrow>
          (case ctx internalPrimaryKeyInCtx of
             Some (CtxTableField pkField) \<Rightarrow>
               (if Name pkField \<noteq> [] \<and> Contains sql ''INSERT INTO'' then
                  (let primaryKey = Name pkField;
                       sql = sql @ '' RETURNING '' @ primaryKey;
                       (sql, args) = FormatSqlBeforeExecuting core sql args
                   in case DoFilter_pg sql args of
                        Inl err \<Rightarrow> (Inl err, [])
                      | Inr (sql, args) \<Rightarrow>
                          (case DoCommit core l sql args of
                             Inl err \<Rightarrow> (Inl err, [EvDoCommit l sql args])
                           | Inr Records \<Rightarrow>
                               (Inr (PgResult (exec_result core pkField primaryKey Records)),
                                [EvDoCommit l sql args])))
                else (map_sum id CoreResult (Core_DoExec core l sql args),
                      [EvCoreDoExec l sql args]))
           | _ \<Rightarrow> (map_sum id CoreResult (Core_DoExec core l sql args),
                   [EvCoreDoExec l sql args])))"

section \<open>Properties of the scan\<close>

lemma replace_all_Nil: "m [] = None \<Longrightarrow> replace_all m [] = []"
  by (simp add: replace_all.simps)

lemma replace_all_None:
  "m (c # cs) = None \<Longrightarrow> replace_all m (c # cs) = c # replace_all m cs"
  by (subst replace_all.simps) simp

lemma replace_all_Some:
  "m s = Some (repl, rest) \<Longrightarrow> length rest < length s
   \<Longrightarrow> replace_all m s = repl @ replace_all m rest"
  by (subst replace_all.simps) simp

text \<open>
  A scan composes: if the pattern, tried in front of the text \<open>X\<close>, finds what it finds
  without \<open>X\<close>, then scanning \<open>p @ X\<close> is scanning \<open>p\<close> and then \<open>X\<close>.
\<close>

lemma replace_all_append_ctx:
  assumes ctx: "\<And>q. q \<noteq> [] \<Longrightarrow> m (q @ X) = map_option (\<lambda>(repl, r). (repl, r @ X)) (m q)"
    and shorter: "\<And>q repl r. m q = Some (repl, r) \<Longrightarrow> length r < length q"
  shows "replace_all m (p @ X) = replace_all m p @ replace_all m X"
proof (induction p rule: length_induct)
  case (1 p)
  show ?case
  proof (cases p)
    case Nil
    have "m [] = None" using shorter[of "[]"] by (cases "m []") auto
    then show ?thesis using Nil by (simp add: replace_all_Nil)
  next
    case (Cons c cs)
    show ?thesis
    proof (cases "m p")
      case None
      then have "m (c # cs @ X) = None" using ctx[of p] Cons by simp
      moreover have "replace_all m (cs @ X) = replace_all m cs @ replace_all m X"
        using 1 Cons by simp
      ultimately show ?thesis using None Cons by (simp add: replace_all_None)
    next
      case (Some a)
      obtain repl r where a: "a = (repl, r)" by (cases a)
      have len: "length r < length p" using shorter Some a by simp
      have "m (p @ X) = Some (repl, r @ X)" using ctx[of p] Cons Some a by simp
      moreover have "length (r @ X) < length (p @ X)" using len by simp
      ultimately have "replace_all m (p @ X) = repl @ replace_all m (r @ X)"
        by (rule replace_all_Some)
      moreover have "replace_all m p = repl @ replace_all m r"
        using Some a len by (simp add: replace_all_Some)
      moreover have "replace_all m (r @ X) = replace_all m r @ replace_all m X"
        using 1 len by simp
      ultimately show ?thesis by simp
    qed
  qed
qed

lemma takeWhile_stop: "\<not> P x \<Longrightarrow> takeWhile P (r @ x # t) = takeWhile P r"
  by (induction r) auto

lemma dropWhile_stop: "\<not> P x \<Longrightarrow> dropWhile P (r @ x # t) = dropWhile P r @ x # t"
  by (induction r) auto

lemma takeWhile_all: "\<forall>c\<in>set a. P c \<Longrightarrow> takeWhile P (a @ t) = a @ takeWhile P t"
  by (induction a) auto

lemma dropWhile_all: "\<forall>c\<in>set a. P c \<Longrightarrow> dropWhile P (a @ t) = dropWhile P t"
  by (induction a) auto

lemma dropWhile_id: "takeWhile P s = [] \<Longrightarrow> dropWhile P s = s"
  by (cases s) (auto split: if_splits)

lemma digit_not_space: "is_digit c \<Longrightarrow> \<not> is_space c"
  by (auto simp: is_digit_def is_space_def)

section \<open>ClickHouse: DoFilter with no parameters\<close>

text \<open>
  C10. With an empty parameter list \<open>DoFilter\<close> of the ClickHouse driver returns the
  statement and the (empty) list as they are, with a nil error, whatever the context
  holds: no placeholder is numbered and no \<open>UPDATE\<close> or \<open>DELETE\<close> is rewritten, also when the
  needs-rewrite flag is set.
\<close>

theorem DoFilter_ch_empty_args:
  "DoFilter_ch ctx originSql ([] :: 'a list) = Inr (originSql, [])"
  by (simp add: DoFilter_ch_def)

theorem DoFilter_ch_empty_args_witness:
  "DoFilter_ch (injectNeedParsedSql Map.empty) ''UPDATE tt SET a=?'' ([] :: go_value list)
     = Inr (''UPDATE tt SET a=?'', [])"
  by (rule DoFilter_ch_empty_args)

section \<open>ClickHouse: the unsupported methods\<close>

text \<open>
  C4. \<open>InsertIgnore\<close>, \<open>InsertAndGetId\<close>, \<open>Replace\<close>, \<open>Begin\<close> and \<open>Transaction\<close> return,
  for every argument, the same named error \<open>unsupported method:...\<close> of their own, and ask
  nothing of the transaction layer: the trace is empty, the callback of \<open>Transaction\<close> is
  not called.
\<close>

theorem unsupported_methods_fixed_error:
  "InsertIgnore ctx table data batch
     = ((None, Some (ErrorNew ''unsupported method:InsertIgnore'')), [])
   \<and> InsertAndGetId ctx table data batch
     = ((0, Some (ErrorNew ''unsupported method:InsertGetId'')), [])
   \<and> Replace ctx table data batch
     = ((None, Some (ErrorNew ''unsupported method:Replace'')), [])
   \<and> Begin ctx = ((None, Some (ErrorNew ''unsupported method:Begin'')), [])
   \<and> Transaction ctx f = (Some (ErrorNew ''unsupported method:Transaction''), [])"
  by (simp add: InsertIgnore_def InsertAndGetId_def Replace_def Begin_def Transaction_def
      errUnsupportedInsertIgnore_def errUnsupportedInsertGetId_def errUnsupportedReplace_def
      errUnsupportedBegin_def errUnsupportedTransaction_def)

section \<open>ClickHouse: the emulated batch insert\<close>

text \<open>The loop when every row succeeds, and when row \<open>k\<close> is the first to fail.\<close>

lemma exec_rows_all_succeed:
  "(\<forall>j<length rows. \<exists>r. ExecContext tx (i + j) (map (row_get (rows ! j)) keys) = Inr r)
   \<Longrightarrow> exec_rows tx keys i rows res =
        ((if rows = [] then res
          else (case ExecContext tx (i + length rows - 1) (map (row_get (last rows)) keys) of
                  Inr r \<Rightarrow> Some r | Inl e \<Rightarrow> None), None),
         map (\<lambda>r. EvExec (map (row_get r) keys)) rows)"
proof (induction rows arbitrary: i res)
  case Nil
  show ?case by simp
next
  case (Cons row rows)
  from Cons.prems[rule_format, of 0] obtain r0
    where r0: "ExecContext tx i (map (row_get row) keys) = Inr r0" by auto
  have "\<forall>j<length rows. \<exists>r. ExecContext tx (Suc i + j) (map (row_get (rows ! j)) keys) = Inr r"
  proof (intro allI impI)
    fix j assume "j < length rows"
    then have "Suc j < length (row # rows)" by simp
    from Cons.prems[rule_format, OF this] show "\<exists>r. ExecContext tx (Suc i + j) (map (row_get (rows ! j)) keys) = Inr r"
      by simp
  qed
  from Cons.IH[OF this, of "Some r0"] r0 show ?case
    by (cases rows) (simp_all add: Let_def)
qed

lemma exec_rows_first_failure:
  "k < length rows \<Longrightarrow> ExecContext tx (i + k) (map (row_get (rows ! k)) keys) = Inl e
   \<Longrightarrow> (\<forall>j<k. \<exists>r. ExecContext tx (i + j) (map (row_get (rows ! j)) keys) = Inr r)
   \<Longrightarrow> exec_rows tx keys i rows res =
        ((None, Some e), map (\<lambda>r. EvExec (map (row_get r) keys)) (take (Suc k) rows))"
proof (induction rows arbitrary: i k res)
  case Nil
  then show ?case by simp
next
  case (Cons row rows)
  show ?case
  proof (cases k)
    case 0
    with Cons.prems show ?thesis by (simp add: Let_def)
  next
    case (Suc k')
    from Cons.prems(3)[rule_format, of 0] Suc obtain r0
      where r0: "ExecContext tx i (map (row_get row) keys) = Inr r0" by auto
    have a: "k' < length rows" using Cons.prems(1) Suc by simp
    have b: "ExecContext tx (Suc i + k') (map (row_get (rows ! k')) keys) = Inl e"
      using Cons.prems(2) Suc by simp
    have c: "\<forall>j<k'. \<exists>r. ExecContext tx (Suc i + j) (map (row_get (rows ! j)) keys) = Inr r"
    proof (intro allI impI)
      fix j assume "j < k'"
      then have "Suc j < k" using Suc by simp
      from Cons.prems(3)[rule_format, OF this]
      show "\<exists>r. ExecContext tx (Suc i + j) (map (row_get (rows ! j)) keys) = Inr r" by simp
    qed
    from Cons.IH[OF a b c, of "Some r0"] r0 Suc show ?thesis
      by (simp add: Let_def)
  qed
qed

text \<open>
  C3. For a non-empty list, when \<open>Begin\<close> and \<open>Prepare\<close> succeed: one transaction is begun
  and one insert statement is prepared in it. If every row's execution succeeds, the
  statement is executed once per row, in list order, the transaction is committed, and the
  last row's result is returned with a nil error. If row \<open>k\<close> is the first whose execution
  fails, its error is returned, the rows up to \<open>k\<close> and no later one have been executed,
  and the transaction is rolled back: no row is committed.
\<close>

theorem DoInsert_ch_batch:
  assumes "list = row0 # rest"
    and "Begin_err tx = None"
    and "Prepare_err tx (insert_statement q table (map fst row0)) = None"
  shows
    "((\<forall>j<length list. \<exists>r. ExecContext tx j (map (row_get (list ! j)) (map fst row0)) = Inr r)
       \<longrightarrow> (\<exists>r evs.
             ExecContext tx (length list - 1) (map (row_get (last list)) (map fst row0)) = Inr r
             \<and> DoInsert_ch tx q table list = Returns ((Some r, None), evs)
             \<and> evs = [EvBegin, EvPrepare (insert_statement q table (map fst row0))]
                      @ map (\<lambda>r. EvExec (map (row_get r) (map fst row0))) list @ [EvCommit]
             \<and> committed_rows evs = map (\<lambda>r. map (row_get r) (map fst row0)) list))
   \<and> (\<forall>k e. k < length list
          \<and> ExecContext tx k (map (row_get (list ! k)) (map fst row0)) = Inl e
          \<and> (\<forall>j<k. \<exists>r. ExecContext tx j (map (row_get (list ! j)) (map fst row0)) = Inr r)
       \<longrightarrow> (\<exists>evs.
             DoInsert_ch tx q table list = Returns ((None, Some e), evs)
             \<and> evs = [EvBegin, EvPrepare (insert_statement q table (map fst row0))]
                      @ map (\<lambda>r. EvExec (map (row_get r) (map fst row0))) (take (Suc k) list)
                      @ [EvRollback]
             \<and> committed_rows evs = []))"
proof (intro conjI impI allI)
  let ?keys = "map fst row0"
  let ?stmt = "insert_statement q table ?keys"
  assume ok: "\<forall>j<length list. \<exists>r. ExecContext tx j (map (row_get (list ! j)) ?keys) = Inr r"
  then have "\<forall>j<length list. \<exists>r. ExecContext tx (0 + j) (map (row_get (list ! j)) ?keys) = Inr r"
    by simp
  note ex = exec_rows_all_succeed[OF this, of None]
  have ne: "list \<noteq> []" using assms(1) by simp
  then have "length list - 1 < length list" by simp
  from ok[rule_format, OF this] obtain r
    where r: "ExecContext tx (length list - 1) (map (row_get (list ! (length list - 1))) ?keys) = Inr r"
    by auto
  have lst: "list ! (length list - 1) = last list" using ne by (simp add: last_conv_nth)
  let ?evs = "[EvBegin, EvPrepare ?stmt] @ map (\<lambda>r. EvExec (map (row_get r) ?keys)) list @ [EvCommit]"
  have "DoInsert_ch tx q table list = Returns ((Some r, None), ?evs)"
    using ex r ne assms unfolding lst
    by (simp add: DoInsert_ch_def Let_def del: exec_rows.simps)
  moreover have "committed_rows ?evs = map (\<lambda>r. map (row_get r) ?keys) list"
    by (simp add: committed_rows_def comp_def)
  ultimately show "\<exists>r evs.
             ExecContext tx (length list - 1) (map (row_get (last list)) ?keys) = Inr r
             \<and> DoInsert_ch tx q table list = Returns ((Some r, None), evs)
             \<and> evs = [EvBegin, EvPrepare ?stmt]
                      @ map (\<lambda>r. EvExec (map (row_get r) ?keys)) list @ [EvCommit]
             \<and> committed_rows evs = map (\<lambda>r. map (row_get r) ?keys) list"
    using r unfolding lst by blast
next
  let ?keys = "map fst row0"
  let ?stmt = "insert_statement q table ?keys"
  fix k e
  assume f: "k < length list
          \<and> ExecContext tx k (map (row_get (list ! k)) ?keys) = Inl e
          \<and> (\<forall>j<k. \<exists>r. ExecContext tx j (map (row_get (list ! j)) ?keys) = Inr r)"
  then have "k < length list" "ExecContext tx (0 + k) (map (row_get (list ! k)) ?keys) = Inl e"
    "\<forall>j<k. \<exists>r. ExecContext tx (0 + j) (map (row_get (list ! j)) ?keys) = Inr r"
    by simp_all
  note ex = exec_rows_first_failure[OF this, of None]
  let ?evs = "[EvBegin, EvPrepare ?stmt]
                @ map (\<lambda>r. EvExec (map (row_get r) ?keys)) (take (Suc k) list) @ [EvRollback]"
  have "DoInsert_ch tx q table list = Returns ((None, Some e), ?evs)"
    using ex assms by (simp add: DoInsert_ch_def Let_def del: exec_rows.simps)
  moreover have "committed_rows ?evs = []"
    by (auto simp: committed_rows_def)
  ultimately show "\<exists>evs.
             DoInsert_ch tx q table list = Returns ((None, Some e), evs)
             \<and> evs = [EvBegin, EvPrepare ?stmt]
                      @ map (\<lambda>r. EvExec (map (row_get r) ?keys)) (take (Suc k) list)
                      @ [EvRollback]
             \<and> committed_rows evs = []"
    by blast
qed

text \<open>Three rows, the second failing; and the same three rows, all succeeding.\<close>

theorem DoInsert_ch_batch_witness:
  "DoInsert_ch
     \<lparr>Begin_err = None, Prepare_err = (\<lambda>s. None),
      ExecContext = (\<lambda>i ps. if i = 1 then Inl (BackendError ''row 2'') else Inr i)\<rparr>
     \<lparr>charL = [], charR = [], QuotePrefixTableName = (\<lambda>t. t)\<rparr> ''t''
     [[(''id'', VInt 1)], [(''id'', VInt 2)], [(''id'', VInt 3)]]
   = Returns ((None, Some (BackendError ''row 2'')),
       [EvBegin, EvPrepare ''INSERT INTO t(id) VALUES (?)'', EvExec [VInt 1],
        EvExec [VInt 2], EvRollback])
   \<and> DoInsert_ch
     \<lparr>Begin_err = None, Prepare_err = (\<lambda>s. None), ExecContext = (\<lambda>i ps. Inr i)\<rparr>
     \<lparr>charL = [], charR = [], QuotePrefixTableName = (\<lambda>t. t)\<rparr> ''t''
     [[(''id'', VInt 1)], [(''id'', VInt 2)], [(''id'', VInt 3)]]
   = Returns ((Some 2, None),
       [EvBegin, EvPrepare ''INSERT INTO t(id) VALUES (?)'', EvExec [VInt 1],
        EvExec [VInt 2], EvExec [VInt 3], EvCommit])"
proof -
  let ?q = "\<lparr>charL = [], charR = [], QuotePrefixTableName = (\<lambda>t. t)\<rparr>"
  let ?list = "[[(''id'', VInt 1)], [(''id'', VInt 2)], [(''id'', VInt 3)]]"
  let ?bad = "\<lparr>Begin_err = None, Prepare_err = (\<lambda>s. None),
      ExecContext = (\<lambda>i ps. if i = (1::nat) then Inl (BackendError ''row 2'') else Inr i)\<rparr>"
  let ?good = "\<lparr>Begin_err = None, Prepare_err = (\<lambda>s. None),
      ExecContext = (\<lambda>(i::nat) ps. (Inr i :: go_error + nat))\<rparr>"
  have l: "?list = [(''id'', VInt 1)] # [[(''id'', VInt 2)], [(''id'', VInt 3)]]" by simp
  have stmt: "insert_statement ?q ''t'' [''id''] = ''INSERT INTO t(id) VALUES (?)''"
    by (simp add: insert_statement_def)
  have "\<forall>k e. k < length ?list
          \<and> ExecContext ?bad k (map (row_get (?list ! k)) (map fst [(''id'', VInt 1)])) = Inl e
          \<and> (\<forall>j<k. \<exists>r. ExecContext ?bad j (map (row_get (?list ! j)) (map fst [(''id'', VInt 1)])) = Inr r)
       \<longrightarrow> (\<exists>evs.
             DoInsert_ch ?bad ?q ''t'' ?list = Returns ((None, Some e), evs)
             \<and> evs = [EvBegin, EvPrepare (insert_statement ?q ''t'' (map fst [(''id'', VInt 1)]))]
                      @ map (\<lambda>r. EvExec (map (row_get r) (map fst [(''id'', VInt 1)]))) (take (Suc k) ?list)
                      @ [EvRollback]
             \<and> committed_rows evs = [])"
    using DoInsert_ch_batch[OF l, of ?bad ?q "''t''"] by simp
  from this[rule_format, of 1 "BackendError ''row 2''"]
  have bad: "DoInsert_ch ?bad ?q ''t'' ?list = Returns ((None, Some (BackendError ''row 2'')),
       [EvBegin, EvPrepare ''INSERT INTO t(id) VALUES (?)'', EvExec [VInt 1],
        EvExec [VInt 2], EvRollback])"
    by (simp add: stmt row_get_def)
  have "(\<forall>j<length ?list. \<exists>r. ExecContext ?good j (map (row_get (?list ! j)) (map fst [(''id'', VInt 1)])) = Inr r)
       \<longrightarrow> (\<exists>r evs.
             ExecContext ?good (length ?list - 1) (map (row_get (last ?list)) (map fst [(''id'', VInt 1)])) = Inr r
             \<and> DoInsert_ch ?good ?q ''t'' ?list = Returns ((Some r, None), evs)
             \<and> evs = [EvBegin, EvPrepare (insert_statement ?q ''t'' (map fst [(''id'', VInt 1)]))]
                      @ map (\<lambda>r. EvExec (map (row_get r) (map fst [(''id'', VInt 1)]))) ?list @ [EvCommit]
             \<and> committed_rows evs = map (\<lambda>r. map (row_get r) (map fst [(''id'', VInt 1)])) ?list)"
    using DoInsert_ch_batch[OF l, of ?good ?q "''t''"] by simp
  then have good: "DoInsert_ch ?good ?q ''t'' ?list = Returns ((Some 2, None),
       [EvBegin, EvPrepare ''INSERT INTO t(id) VALUES (?)'', EvExec [VInt 1],
        EvExec [VInt 2], EvExec [VInt 3], EvCommit])"
    by (simp add: stmt row_get_def)
  from bad good show ?thesis by simp
qed

section \<open>ClickHouse: zero timestamps in ConvertValueForField\<close>

text \<open>
  A zero time of the shapes \<open>time.Time\<close>, \<open>*time.Time\<close> and \<open>gtime.Time\<close>, and a nil pointer
  of either pointer type, is converted to nil.
\<close>

lemma ConvertValueForField_zero_other_shapes:
  "IsZero t \<Longrightarrow>
     ConvertValueForField fieldType (VTime t) = Inr VNil
   \<and> ConvertValueForField fieldType (VTimePtr (Some t)) = Inr VNil
   \<and> ConvertValueForField fieldType (VTimePtr None) = Inr VNil
   \<and> ConvertValueForField fieldType (VGTime t) = Inr VNil
   \<and> ConvertValueForField fieldType (VGTimePtr None) = Inr VNil"
  by simp

text \<open>
  C5 says that a zero timestamp of every shape, a non-nil \<open>*gtime.Time\<close> holding a zero
  time included, is converted to nil. The case \<open>*gtime.Time\<close> returns \<open>itemValue.Time\<close> for
  every non-nil pointer before it looks at \<open>IsZero\<close>: for a non-nil pointer to the zero
  time the result is the zero \<open>time.Time\<close>, not nil.
\<close>

theorem ConvertValueForField_gtime_ptr_zero:
  "IsZero \<lparr>t_sec = 0, t_nsec = 0\<rparr>
   \<and> ConvertValueForField ''DateTime'' (VGTimePtr (Some \<lparr>t_sec = 0, t_nsec = 0\<rparr>))
       = Inr (VTime \<lparr>t_sec = 0, t_nsec = 0\<rparr>)
   \<and> ConvertValueForField ''DateTime'' (VGTimePtr (Some \<lparr>t_sec = 0, t_nsec = 0\<rparr>)) \<noteq> Inr VNil"
  by (simp add: IsZero_def)

section \<open>ClickHouse: UPDATE and DELETE in DoFilter\<close>

text \<open>
  With the needs-rewrite flag in the context, a table name of two characters is rewritten as
  C2 says; without the flag only the placeholders are numbered.
\<close>

lemma DoFilter_ch_two_byte_table:
  "DoFilter_ch (injectNeedParsedSql Map.empty) ''UPDATE tt SET a=?'' [VInt 1]
     = Inr (''ALTER TABLE tt UPDATE a=$1'', [VInt 1])
   \<and> DoFilter_ch (injectNeedParsedSql Map.empty) ''DELETE FROM tt WHERE a=?'' [VInt 1]
     = Inr (''ALTER TABLE tt DELETE WHERE a=$1'', [VInt 1])
   \<and> DoFilter_ch Map.empty ''UPDATE tt SET a=?'' [VInt 1]
     = Inr (''UPDATE tt SET a=$1'', [VInt 1])"
  by code_simp

text \<open>
  C2 says that with the flag set \<open>UPDATE t SET <rest>\<close> becomes \<open>ALTER TABLE t UPDATE <rest>\<close>
  and \<open>DELETE FROM t <rest>\<close> becomes \<open>ALTER TABLE t DELETE <rest>\<close>. The group
  \<open>(\w+[\.]?\w+)\<close> of both patterns needs two word characters: for the table name \<open>t\<close> neither
  pattern matches, and the statement leaves \<open>DoFilter\<close> with its placeholders numbered and
  nothing else changed.
\<close>

theorem DoFilter_ch_one_byte_table:
  "DoFilter_ch (injectNeedParsedSql Map.empty) ''UPDATE t SET a=?'' [VInt 1]
     = Inr (''UPDATE t SET a=$1'', [VInt 1])
   \<and> DoFilter_ch (injectNeedParsedSql Map.empty) ''DELETE FROM t WHERE a=?'' [VInt 1]
     = Inr (''DELETE FROM t WHERE a=$1'', [VInt 1])"
  by code_simp

section \<open>ClickHouse: the index of a field in TableFields\<close>

lemma find_append:
  "find P (xs @ ys) = (case find P xs of None \<Rightarrow> find P ys | Some x \<Rightarrow> Some x)"
  by (induction xs) auto

text \<open>The map after the loop: for each name, the last row of that name wins.\<close>

lemma ch_fields_loop_lookup:
  "ch_fields_loop first ms flds name =
     (case find (\<lambda>m. col_name m = name) (rev ms) of
        Some m \<Rightarrow> Some (ch_field first m)
      | None \<Rightarrow> flds name)"
proof (induction ms arbitrary: flds)
  case Nil
  show ?case by simp
next
  case (Cons m ms)
  show ?case
    by (simp add: Cons.IH find_append split: option.split)
qed

lemma ch_fields_lookup:
  "ch_fields (first # rest) name =
     map_option (ch_field first) (find (\<lambda>m. col_name m = name) (rev (first # rest)))"
  unfolding ch_fields_def list.case ch_fields_loop_lookup
  by (simp split: option.split)

lemma Index_ch_field:
  "Index (ch_field first m) =
     (if col_position first \<noteq> 0 then col_position m - 1 else col_position m)"
  by (simp add: ch_field_def Let_def split: option.split prod.split)

lemma Name_ch_field: "Name (ch_field first m) = col_name m"
  by (simp add: ch_field_def Let_def split: option.split prod.split)

text \<open>
  C9 says that, when the first row's position is not zero, the base detected from the
  first row is subtracted from every position, so that the positions are zero-based. The
  code subtracts one, whatever the first row's position is: with the positions 5 and 6
  the indexes are 4 and 5, neither zero-based nor the positions less the first row's.
\<close>

theorem TableFields_ch_base_counterexample:
  "map_option Index
     (projr (TableFields_ch None (Inr
        [\<lparr>col_name = ''a'', col_position = 5, col_default = VNil, col_comment = [],
          col_type = ''Int32''\<rparr>,
         \<lparr>col_name = ''b'', col_position = 6, col_default = VNil, col_comment = [],
          col_type = ''Nullable(String)''\<rparr>])) ''a'') = Some 4
   \<and> map_option Index
     (projr (TableFields_ch None (Inr
        [\<lparr>col_name = ''a'', col_position = 5, col_default = VNil, col_comment = [],
          col_type = ''Int32''\<rparr>,
         \<lparr>col_name = ''b'', col_position = 6, col_default = VNil, col_comment = [],
          col_type = ''Nullable(String)''\<rparr>])) ''b'') = Some 5"
  by (simp add: TableFields_ch_def ch_fields_def ch_field_def match_Nullable_def)

text \<open>
  C9, amended. When the link and the catalog query succeed and return at least one row,
  every row's name has a field descriptor, and every descriptor returned
  belongs to a row of its name: its index is that row's position less one (in 64-bit
  arithmetic) when the first row's position is not zero, and that row's position
  unchanged when the first row's position is zero.
\<close>

theorem TableFields_ch_index_minus_one:
  assumes "result = first # rest"
  shows "\<exists>flds. TableFields_ch None (Inr result) = Inr flds
       \<and> (\<forall>m \<in> set result. \<exists>f. flds (col_name m) = Some f)
       \<and> (\<forall>name f. flds name = Some f \<longrightarrow>
            (\<exists>m \<in> set result. col_name m = name \<and> Name f = name
               \<and> Index f = (if col_position first \<noteq> 0 then col_position m - 1
                             else col_position m)))"
proof -
  have a: "\<exists>f. ch_fields result (col_name m) = Some f" if "m \<in> set result" for m
  proof -
    from that have "find (\<lambda>x. col_name x = col_name m) (rev result) \<noteq> None"
      by (auto simp: find_None_iff)
    then show ?thesis unfolding assms ch_fields_lookup by auto
  qed
  have b: "\<exists>m \<in> set result. col_name m = name \<and> Name f = name
      \<and> Index f = (if col_position first \<noteq> 0 then col_position m - 1 else col_position m)"
    if "ch_fields result name = Some f" for name f
  proof -
    from that obtain m where m: "find (\<lambda>x. col_name x = name) (rev result) = Some m"
      and fm: "f = ch_field first m"
      unfolding assms ch_fields_lookup by auto
    from m obtain i where "i < length (rev result)" "rev result ! i = m" "col_name m = name"
      unfolding find_Some_iff by auto
    then have "m \<in> set result" and "col_name m = name"
      using nth_mem[of i "rev result"] by auto
    with fm show ?thesis by (auto simp: Index_ch_field Name_ch_field)
  qed
  have "TableFields_ch None (Inr result) = Inr (ch_fields result)"
    by (simp add: TableFields_ch_def)
  with a b show ?thesis by blast
qed

text \<open>The catalog numbering of ClickHouse, from one: the indexes are from zero.\<close>

theorem TableFields_ch_index_minus_one_witness:
  "\<exists>flds f. TableFields_ch None (Inr
        [\<lparr>col_name = ''a'', col_position = 1, col_default = VNil, col_comment = [],
          col_type = ''Int32''\<rparr>,
         \<lparr>col_name = ''b'', col_position = 2, col_default = VNil, col_comment = [],
          col_type = ''Nullable(String)''\<rparr>]) = Inr flds
      \<and> flds ''b'' = Some f \<and> Name f = ''b'' \<and> Index f = 1"
proof -
  let ?a = "\<lparr>col_name = ''a'', col_position = 1, col_default = VNil, col_comment = [],
          col_type = ''Int32''\<rparr>"
  let ?b = "\<lparr>col_name = ''b'', col_position = 2, col_default = VNil, col_comment = [],
          col_type = ''Nullable(String)''\<rparr>"
  have "[?a, ?b] = ?a # [?b]" by simp
  from TableFields_ch_index_minus_one[OF this]
  obtain flds where 0: "TableFields_ch None (Inr [?a, ?b]) = Inr flds"
    and 1: "\<forall>m \<in> set [?a, ?b]. \<exists>f. flds (col_name m) = Some f"
    and 2: "\<forall>name f. flds name = Some f \<longrightarrow>
            (\<exists>m \<in> set [?a, ?b]. col_name m = name \<and> Name f = name
               \<and> Index f = (if col_position ?a \<noteq> 0 then col_position m - 1
                             else col_position m))"
    by blast
  from 1 obtain f where f: "flds ''b'' = Some f" by force
  with 2 have "\<exists>m \<in> set [?a, ?b]. col_name m = ''b'' \<and> Name f = ''b''
               \<and> Index f = (if col_position ?a \<noteq> 0 then col_position m - 1
                             else col_position m)" by blast
  then have "Name f = ''b'' \<and> Index f = 1" by auto
  with 0 f show ?thesis by blast
qed

section \<open>PostgreSQL: the jsonb operator in DoFilter\<close>

text \<open>
  C7 says that behind a restored jsonb operator \<open>?\<close> every later placeholder \<open>$n\<close> still
  names the \<open>n\<close>-th bound parameter. The operator was counted when the placeholders were
  numbered, and restoring it renumbers nothing: with one bound parameter, the placeholder
  behind the operator is \<open>$2\<close>.
\<close>

theorem DoFilter_pg_jsonb_later_placeholder:
  "DoFilter_pg ''SELECT * FROM t WHERE data::jsonb ? 'k' AND id = ?'' [VInt 7]
     = Inr (''SELECT * FROM t WHERE data::jsonb ? 'k' AND id = $2'', [VInt 7])"
  by code_simp

text \<open>
  The pattern ends in \<open>\$\d\<close>, one digit: from the tenth marker on, only the first digit
  of the number is taken for the operator, and the rest of the number stays behind it.
\<close>

lemma DoFilter_pg_jsonb_tenth_marker:
  "DoFilter_pg ''SELECT ?,?,?,?,?,?,?,?,? FROM t WHERE data::jsonb ? 'k' AND 1=1'' []
     = Inr (''SELECT $1,$2,$3,$4,$5,$6,$7,$8,$9 FROM t WHERE data::jsonb ?0 'k' AND 1=1'',
            ([] :: go_value list))"
  by code_simp

section \<open>PostgreSQL: the RETURNING clause of DoExec\<close>

text \<open>
  C6 says that a primary key of numeric type gets its returned value as \<open>LastInsertId\<close>
  and one of non-numeric type the not-supported error. The code does not ask whether the
  type is numeric; it asks whether the type's name contains \<open>int\<close>: for the primary key
  type \<open>numeric\<close> the result carries the row count and the not-supported error, not the
  returned key 7.
\<close>

theorem DoExec_pg_numeric_counterexample:
  "DoExec_pg
     \<lparr>TXFromCtx = None, MasterLink = Inr (Link 0 False),
      Core_DoExec = (\<lambda>l s a. Inr ()),
      FormatSqlBeforeExecuting = (\<lambda>s a. (s, a)),
      DoCommit = (\<lambda>l s a. Inr [[''id'' \<mapsto> VInt 7]]),
      Int64 = (\<lambda>v. case v of VInt i \<Rightarrow> word_of_int i | _ \<Rightarrow> 0)\<rparr>
     [internalPrimaryKeyInCtx \<mapsto> CtxTableField
        \<lparr>Index = 0, Name = ''id'', Type = ''numeric'', Null = False, Key = ''pri'',
         Default = VNil, Comment = []\<rparr>]
     None ''INSERT INTO t(id) VALUES (?)'' [VInt 7]
   = (Inr (PgResult \<lparr>affected = 1, lastInsertId = 0,
        lastInsertIdError = Some (CodeNotSupported
          ''LastInsertId is not supported by primary key type: numeric'')\<rparr>),
      [EvDoCommit (Link 0 False) ''INSERT INTO t(id) VALUES ($1) RETURNING id'' [VInt 7]])"
  by (simp add: DoExec_pg_def resolve_link_def internalPrimaryKeyInCtx_def Contains_def
      sublist_Cons_right DoFilter_pg_def Core_DoFilter_def exec_result_def Let_def
      replace_all_Nil replace_all_None match_jsonb_def match_limit_def dec.simps digit_char_def)

text \<open>
  C6, amended. For an insert with the default option on a table with a field of key
  \<open>pri\<close> (the first one that \<open>range\<close> yields), \<open>DoInsert\<close> puts that field into the context.
  With it in the context, a non-empty name and a statement that contains \<open>INSERT INTO\<close>,
  \<open>DoExec\<close> appends \<open>RETURNING\<close> and the field's name to the statement, formats and filters
  it and commits it once. When rows are returned: if the declared type's name does not
  contain \<open>int\<close>, the result carries the number of returned rows as the affected count,
  the id 0 and the not-supported error, and the call itself succeeds; if it contains
  \<open>int\<close> and the last returned row has a value under the primary key's name, the result
  carries the same count and that value's \<open>Int64()\<close> as \<open>LastInsertId\<close>, with no error.
\<close>

theorem DoExec_pg_returning:
  assumes pk: "find (\<lambda>field. Key field = ''pri'') fs = Some pkField"
    and name: "Name pkField \<noteq> []"
    and ins: "Contains sql ''INSERT INTO''"
    and lnk: "resolve_link core lnk = Inr l"
    and fmt: "FormatSqlBeforeExecuting core (sql @ '' RETURNING '' @ Name pkField) args
                = (sql1, args1)"
    and flt: "DoFilter_pg sql1 args1 = Inr (sql2, args2)"
    and com: "DoCommit core l sql2 args2 = Inr Records"
    and rows: "Records \<noteq> []"
  shows "DoInsert_pg (Inr fs) ctx InsertOptionDefault
           = Inr (ctx(internalPrimaryKeyInCtx \<mapsto> CtxTableField pkField))
    \<and> snd (DoExec_pg core (ctx(internalPrimaryKeyInCtx \<mapsto> CtxTableField pkField)) lnk sql args)
           = [EvDoCommit l sql2 args2]
    \<and> (\<not> Contains (Type pkField) ''int'' \<longrightarrow>
         fst (DoExec_pg core (ctx(internalPrimaryKeyInCtx \<mapsto> CtxTableField pkField)) lnk sql args)
           = Inr (PgResult \<lparr>affected = of_nat (length Records), lastInsertId = 0,
                   lastInsertIdError = Some (CodeNotSupported
                     (''LastInsertId is not supported by primary key type: ''
                        @ Type pkField))\<rparr>))
    \<and> (\<forall>v. Contains (Type pkField) ''int'' \<and> last Records (Name pkField) = Some v \<longrightarrow>
         fst (DoExec_pg core (ctx(internalPrimaryKeyInCtx \<mapsto> CtxTableField pkField)) lnk sql args)
           = Inr (PgResult \<lparr>affected = of_nat (length Records), lastInsertId = Int64 core v,
                   lastInsertIdError = None\<rparr>))"
proof -
  have 1: "DoInsert_pg (Inr fs) ctx InsertOptionDefault
           = Inr (ctx(internalPrimaryKeyInCtx \<mapsto> CtxTableField pkField))"
    using pk by (simp add: DoInsert_pg_def)
  let ?ctx = "ctx(internalPrimaryKeyInCtx \<mapsto> CtxTableField pkField)"
  have run: "DoExec_pg core ?ctx lnk sql args
      = (Inr (PgResult (exec_result core pkField (Name pkField) Records)),
         [EvDoCommit l sql2 args2])"
    using name ins lnk fmt flt com by (simp add: DoExec_pg_def Let_def)
  have lastrow: "Records ! (length Records - Suc 0) = last Records"
    using rows by (simp add: last_conv_nth)
  have 3: "\<not> Contains (Type pkField) ''int'' \<Longrightarrow>
      exec_result core pkField (Name pkField) Records =
        \<lparr>affected = of_nat (length Records), lastInsertId = 0,
          lastInsertIdError = Some (CodeNotSupported
             (''LastInsertId is not supported by primary key type: '' @ Type pkField))\<rparr>"
    using rows by (simp add: exec_result_def Let_def)
  have 4: "Contains (Type pkField) ''int'' \<Longrightarrow> last Records (Name pkField) = Some v \<Longrightarrow>
      exec_result core pkField (Name pkField) Records =
        \<lparr>affected = of_nat (length Records), lastInsertId = Int64 core v,
          lastInsertIdError = None\<rparr>" for v
    using rows by (simp add: exec_result_def Let_def lastrow)
  show ?thesis using 1 3 4 by (simp add: run)
qed

text \<open>A primary key of type \<open>int8\<close> and one of type \<open>uuid\<close>.\<close>

theorem DoExec_pg_returning_witness:
  "fst (DoExec_pg
     \<lparr>TXFromCtx = None, MasterLink = Inr (Link 0 False),
      Core_DoExec = (\<lambda>l s a. Inr ()),
      FormatSqlBeforeExecuting = (\<lambda>s a. (s, a)),
      DoCommit = (\<lambda>l s a. Inr [[''id'' \<mapsto> VInt 7]]),
      Int64 = (\<lambda>v. case v of VInt i \<Rightarrow> word_of_int i | _ \<Rightarrow> 0)\<rparr>
     [internalPrimaryKeyInCtx \<mapsto> CtxTableField
        \<lparr>Index = 0, Name = ''id'', Type = ''int8'', Null = False, Key = ''pri'',
         Default = VNil, Comment = []\<rparr>]
     None ''INSERT INTO t(id) VALUES (?)'' [VInt 7])
   = Inr (PgResult \<lparr>affected = 1, lastInsertId = 7, lastInsertIdError = None\<rparr>)
   \<and> fst (DoExec_pg
     \<lparr>TXFromCtx = None, MasterLink = Inr (Link 0 False),
      Core_DoExec = (\<lambda>l s a. Inr ()),
      FormatSqlBeforeExecuting = (\<lambda>s a. (s, a)),
      DoCommit = (\<lambda>l s a. Inr [[''id'' \<mapsto> VString ''k1'']]),
      Int64 = (\<lambda>v. case v of VInt i \<Rightarrow> word_of_int i | _ \<Rightarrow> 0)\<rparr>
     [internalPrimaryKeyInCtx \<mapsto> CtxTableField
        \<lparr>Index = 0, Name = ''id'', Type = ''uuid'', Null = False, Key = ''pri'',
         Default = VNil, Comment = []\<rparr>]
     None ''INSERT INTO t(id) VALUES (?)'' [VString ''k1''])
   = Inr (PgResult \<lparr>affected = 1, lastInsertId = 0,
        lastInsertIdError = Some (CodeNotSupported
          ''LastInsertId is not supported by primary key type: uuid'')\<rparr>)"
proof -
  let ?sql = "''INSERT INTO t(id) VALUES (?)''"
  let ?sql2 = "''INSERT INTO t(id) VALUES ($1) RETURNING id''"
  let ?core = "\<lambda>v. \<lparr>TXFromCtx = None, MasterLink = Inr (Link 0 False),
      Core_DoExec = (\<lambda>l s a. (Inr () :: go_error + unit)),
      FormatSqlBeforeExecuting = (\<lambda>s a. (s, a)),
      DoCommit = (\<lambda>l s a. Inr [[''id'' \<mapsto> v]]),
      Int64 = (\<lambda>v. case v of VInt i \<Rightarrow> word_of_int i | _ \<Rightarrow> 0)\<rparr>"
  let ?pk = "\<lambda>ty. \<lparr>Index = 0, Name = ''id'', Type = ty, Null = False, Key = ''pri'',
         Default = VNil, Comment = []\<rparr>"
  have ins: "Contains ?sql ''INSERT INTO''"
    by (simp add: Contains_def sublist_Cons_right)
  have flt: "DoFilter_pg (?sql @ '' RETURNING '' @ ''id'') args = Inr (?sql2, args)"
    for args :: "go_value list"
    by (simp add: DoFilter_pg_def Core_DoFilter_def Let_def dec.simps digit_char_def
        replace_all_Nil replace_all_None match_jsonb_def match_limit_def)
  have int8: "Contains ''int8'' ''int''" and uuid: "\<not> Contains ''uuid'' ''int''"
    by (simp_all add: Contains_def sublist_Cons_right)
  have a: "fst (DoExec_pg (?core (VInt 7)) [internalPrimaryKeyInCtx \<mapsto> CtxTableField (?pk ''int8'')]
             None ?sql [VInt 7])
       = Inr (PgResult \<lparr>affected = 1, lastInsertId = 7, lastInsertIdError = None\<rparr>)"
    using DoExec_pg_returning[of "[?pk ''int8'']" "?pk ''int8''" ?sql "?core (VInt 7)" None
        "Link 0 False" "[VInt 7]" "?sql @ '' RETURNING '' @ ''id''" "[VInt 7]" ?sql2 "[VInt 7]"
        "[[''id'' \<mapsto> VInt 7]]" Map.empty]
      ins flt int8
    by (simp add: resolve_link_def)
  have b: "fst (DoExec_pg (?core (VString ''k1'')) [internalPrimaryKeyInCtx \<mapsto> CtxTableField (?pk ''uuid'')]
             None ?sql [VString ''k1''])
       = Inr (PgResult \<lparr>affected = 1, lastInsertId = 0,
        lastInsertIdError = Some (CodeNotSupported
          ''LastInsertId is not supported by primary key type: uuid'')\<rparr>)"
    using DoExec_pg_returning[of "[?pk ''uuid'']" "?pk ''uuid''" ?sql "?core (VString ''k1'')" None
        "Link 0 False" "[VString ''k1'']" "?sql @ '' RETURNING '' @ ''id''" "[VString ''k1'']" ?sql2
        "[VString ''k1'']" "[[''id'' \<mapsto> VString ''k1'']]" Map.empty]
      ins flt uuid
    by (simp add: resolve_link_def)
  from a b show ?thesis by simp
qed

section \<open>PostgreSQL: the pagination clause in DoFilter\<close>

text \<open>
  Neither pattern can match across the start of a pagination clause: what a scan finds
  in front of a text that begins with a space and \<open>L\<close> is what it finds in the front part
  alone.
\<close>

lemma match_limit_shorter: "match_limit q = Some (repl, r) \<Longrightarrow> length r < length q"
proof -
  assume a: "match_limit q = Some (repl, r)"
  then have p: "prefix '' LIMIT '' q"
    and r: "r = dropWhile is_digit (dropWhile is_space (drop 1 (dropWhile is_digit (drop 7 q))))"
    by (auto simp: match_limit_def Let_def split: if_splits)
  have "length r \<le> length (dropWhile is_space (drop 1 (dropWhile is_digit (drop 7 q))))"
    unfolding r by (rule length_dropWhile_le)
  also have "\<dots> \<le> length (drop 1 (dropWhile is_digit (drop 7 q)))"
    by (rule length_dropWhile_le)
  also have "\<dots> \<le> length (dropWhile is_digit (drop 7 q))" by simp
  also have "\<dots> \<le> length (drop 7 q)" by (rule length_dropWhile_le)
  finally have "length r \<le> length (drop 7 q)" .
  moreover from p have "7 \<le> length q" by (auto simp: prefix_def)
  ultimately show ?thesis by simp
qed

lemma prefix_split_LIMIT:
  assumes "prefix '' LIMIT '' (q @ CHR '' '' # CHR ''L'' # t)" and "\<not> prefix '' LIMIT '' q"
    and "q \<noteq> []"
  shows "q = '' LIMIT''"
proof -
  from assms(1,2) obtain us where us: "'' LIMIT '' = q @ us"
    and p: "prefix us (CHR '' '' # CHR ''L'' # t)"
    by (auto simp: prefix_append)
  from us assms(2,3) p show ?thesis
    by (auto simp: Cons_eq_append_conv)
qed

lemma match_limit_ctx:
  assumes "q \<noteq> []"
  shows "match_limit (q @ CHR '' '' # CHR ''L'' # t)
       = map_option (\<lambda>(repl, r). (repl, r @ CHR '' '' # CHR ''L'' # t)) (match_limit q)"
proof (cases "prefix '' LIMIT '' q")
  case False
  then have n: "match_limit q = None" by (simp add: match_limit_def Let_def)
  show ?thesis
  proof (cases "prefix '' LIMIT '' (q @ CHR '' '' # CHR ''L'' # t)")
    case True
    with False assms have "q = '' LIMIT''" by (rule prefix_split_LIMIT[rotated 1]) 
    then show ?thesis using n by (simp add: match_limit_def Let_def is_digit_def)
  next
    case False
    then show ?thesis using n by (simp add: match_limit_def Let_def)
  qed
next
  case True
  then obtain r where q: "q = '' LIMIT '' @ r" by (auto simp: prefix_def)
  let ?X = "CHR '' '' # CHR ''L'' # t"
  have nd: "\<not> is_digit CHR '' ''" "\<not> is_digit CHR ''L''" "is_space CHR '' ''" "\<not> is_space CHR ''L''"
    by (simp_all add: is_digit_def is_space_def)
  let ?d = "dropWhile is_digit r"
  show ?thesis
  proof (cases "?d")
    case Nil
    have 1: "\<not> prefix '','' (dropWhile is_digit (r @ ?X))"
      using nd Nil by (simp add: dropWhile_stop)
    have 2: "\<not> prefix '','' (dropWhile is_digit r)"
      unfolding Nil by simp
    show ?thesis using q 1 2 by (simp add: match_limit_def Let_def)
  next
    case (Cons x d')
    show ?thesis
    proof (cases "\<forall>c\<in>set d'. is_space c")
      case True
      then have dn: "dropWhile is_space d' = []" by simp
      have "takeWhile is_digit (dropWhile is_space (d' @ ?X)) = []"
        using True nd by (simp add: dropWhile_all)
      moreover have "takeWhile is_digit (dropWhile is_space d') = []"
        unfolding dn by simp
      ultimately show ?thesis using q nd Cons
        by (simp add: match_limit_def Let_def takeWhile_stop dropWhile_stop)
    next
      case False
      then obtain y e where e: "dropWhile is_space d' = y # e"
        by (cases "dropWhile is_space d'") (auto simp: dropWhile_eq_Nil_conv)
      have "dropWhile is_space (d' @ ?X) = dropWhile is_space d' @ ?X"
        using False by (auto simp: dropWhile_append1)
      then show ?thesis using q nd Cons e
        by (simp add: match_limit_def Let_def takeWhile_stop dropWhile_stop)
    qed
  qed
qed

lemma match_jsonb_shorter: "match_jsonb q = Some (repl, r) \<Longrightarrow> length r < length q"
proof -
  assume a: "match_jsonb q = Some (repl, r)"
  then obtain d where p: "prefix ''::jsonb'' q"
    and r: "dropWhile (\<lambda>c. \<not> is_word c \<and> \<not> is_digit c) (drop 7 q) = d # r"
    by (auto simp: match_jsonb_def Let_def split: if_splits list.splits)
  have "length (d # r) \<le> length (drop 7 q)"
    unfolding r[symmetric] by (rule length_dropWhile_le)
  then show ?thesis by simp
qed

lemma prefix_split_jsonb:
  assumes "prefix ''::jsonb'' (q @ CHR '' '' # t)" and "q \<noteq> []"
  shows "prefix ''::jsonb'' q"
proof (rule ccontr)
  assume n: "\<not> prefix ''::jsonb'' q"
  with assms(1) obtain us where us: "''::jsonb'' = q @ us" and p: "prefix us (CHR '' '' # t)"
    by (auto simp: prefix_append)
  from us n assms(2) p show False
    by (auto simp: Cons_eq_append_conv)
qed

lemma match_jsonb_ctx:
  assumes "q \<noteq> []"
  shows "match_jsonb (q @ CHR '' '' # CHR ''L'' # t)
       = map_option (\<lambda>(repl, r). (repl, r @ CHR '' '' # CHR ''L'' # t)) (match_jsonb q)"
proof (cases "prefix ''::jsonb'' q")
  case False
  then have "\<not> prefix ''::jsonb'' (q @ CHR '' '' # CHR ''L'' # t)"
    using prefix_split_jsonb[OF _ assms] by blast
  with False show ?thesis by (simp add: match_jsonb_def Let_def)
next
  case True
  then obtain r where q: "q = ''::jsonb'' @ r" by (auto simp: prefix_def)
  let ?X = "CHR '' '' # CHR ''L'' # t"
  define P where "P = (\<lambda>c. \<not> is_word c \<and> \<not> is_digit c)"
  have nd: "P CHR '' ''" "\<not> P CHR ''L''"
    by (simp_all add: P_def is_digit_def is_word_def)
  have p1: "prefix ''::jsonb'' q" and p2: "prefix ''::jsonb'' (q @ ?X)"
    and d1: "drop 7 q = r" and d2: "drop 7 (q @ ?X) = r @ ?X"
    using q by simp_all
  have m1: "match_jsonb q =
      (if takeWhile P r \<noteq> [] \<and> last (takeWhile P r) = CHR ''$''
       then (case dropWhile P r of [] \<Rightarrow> None
             | d # rest \<Rightarrow> if is_digit d
                 then Some (''::jsonb'' @ butlast (takeWhile P r) @ ''?'', rest) else None)
       else None)"
    unfolding match_jsonb_def Let_def d1 P_def using p1 by simp
  have m2: "match_jsonb (q @ ?X) =
      (if takeWhile P (r @ ?X) \<noteq> [] \<and> last (takeWhile P (r @ ?X)) = CHR ''$''
       then (case dropWhile P (r @ ?X) of [] \<Rightarrow> None
             | d # rest \<Rightarrow> if is_digit d
                 then Some (''::jsonb'' @ butlast (takeWhile P (r @ ?X)) @ ''?'', rest) else None)
       else None)"
    unfolding match_jsonb_def Let_def d2 P_def using p2 by simp
  show ?thesis
  proof (cases "\<forall>c\<in>set r. P c")
    case True
    then have tw: "takeWhile P (r @ ?X) = r @ '' ''" and dw: "dropWhile P r = []"
      using nd by (simp_all add: takeWhile_all)
    show ?thesis unfolding m1 m2 tw dw by simp
  next
    case False
    then obtain c where c: "c \<in> set r" "\<not> P c" by blast
    obtain y e where e: "dropWhile P r = y # e"
      using False by (cases "dropWhile P r") (auto simp: dropWhile_eq_Nil_conv)
    have tw: "takeWhile P (r @ ?X) = takeWhile P r"
      using c by (rule takeWhile_append1)
    have dw: "dropWhile P (r @ ?X) = (y # e) @ ?X"
      unfolding e[symmetric] using c by (rule dropWhile_append1)
    show ?thesis unfolding m1 m2 tw dw e by simp
  qed
qed

lemma jsonb_no_colon:
  "CHR '':'' \<notin> set u \<Longrightarrow> replace_all match_jsonb (u @ v) = u @ replace_all match_jsonb v"
proof (induction u)
  case Nil
  show ?case by simp
next
  case (Cons c u)
  then have "match_jsonb (c # u @ v) = None"
    by (simp add: match_jsonb_def Let_def)
  with Cons show ?case by (simp add: replace_all_None)
qed

lemma replace_placeholders_append:
  "replace_placeholders n (x @ y)
     = replace_placeholders n x @ replace_placeholders (n + count_list x CHR ''?'') y"
  by (induction x arbitrary: n) (simp_all add: Let_def)

lemma replace_placeholders_none:
  "CHR ''?'' \<notin> set u \<Longrightarrow> replace_placeholders n u = u"
  by (induction u) auto

lemma no_digit_head_placeholders:
  "takeWhile is_digit s = [] \<Longrightarrow> takeWhile is_digit (replace_placeholders n s) = []"
  by (cases s) (auto simp: Let_def is_digit_def split: if_splits)

lemma no_digit_head_jsonb:
  "takeWhile is_digit s = [] \<Longrightarrow> takeWhile is_digit (replace_all match_jsonb s) = []"
proof (cases s)
  case Nil
  then show ?thesis by (simp add: replace_all_Nil match_jsonb_def Let_def)
next
  case (Cons c cs)
  assume h: "takeWhile is_digit s = []"
  show ?thesis
  proof (cases "match_jsonb s")
    case None
    with Cons h show ?thesis by (auto simp: replace_all_None split: if_splits)
  next
    case (Some a)
    obtain repl r where a: "a = (repl, r)" by (cases a)
    from Some a have "\<exists>x. repl = CHR '':'' # x"
      by (auto simp: match_jsonb_def Let_def split: if_splits list.splits)
    moreover have "replace_all match_jsonb s = repl @ replace_all match_jsonb r"
      using Some a match_jsonb_shorter by (simp add: replace_all_Some)
    ultimately show ?thesis by (auto simp: is_digit_def)
  qed
qed

lemma match_limit_clause:
  assumes a: "a \<noteq> []" "\<forall>c\<in>set a. is_digit c"
    and b: "b \<noteq> []" "\<forall>c\<in>set b. is_digit c"
    and ws: "\<forall>c\<in>set ws. is_space c"
    and s: "takeWhile is_digit s = []"
  shows "match_limit ('' LIMIT '' @ a @ '','' @ ws @ b @ s)
       = Some ('' LIMIT '' @ b @ '' OFFSET '' @ a, s)"
proof -
  have nc: "\<not> is_digit CHR '',''" by (simp add: is_digit_def)
  have 1: "takeWhile is_digit (a @ '','' @ ws @ b @ s) = a"
    using a(2) nc by (simp add: takeWhile_all)
  have 2: "dropWhile is_digit (a @ '','' @ ws @ b @ s) = '','' @ ws @ b @ s"
    using a(2) nc by (simp add: dropWhile_all)
  obtain d b' where bd: "b = d # b'" using b(1) by (cases b) auto
  then have "\<not> is_space d" using b(2) digit_not_space by simp
  then have 3: "dropWhile is_space (ws @ b @ s) = b @ s"
    using ws bd by (simp add: dropWhile_all)
  have 4: "takeWhile is_digit (b @ s) = b" using b(2) s by (simp add: takeWhile_all)
  have 5: "dropWhile is_digit (b @ s) = s" using b(2) s by (simp add: dropWhile_all dropWhile_id)
  show ?thesis
    unfolding match_limit_def Let_def
    using 1 2 3 4 5 a(1) b(1) by simp
qed

text \<open>
  C8. For every statement \<open>p LIMIT a,b s\<close> in which \<open>a\<close> and \<open>b\<close> are non-empty runs of
  decimal digits, with any white space behind the comma and no digit at the head of \<open>s\<close>
  (so that \<open>b\<close> is the whole literal): \<open>DoFilter\<close> returns the statement with the clause
  rewritten to \<open> LIMIT b OFFSET a\<close>, and the parameters unchanged. In front of the clause
  and behind it stands what the three rewrites of \<open>DoFilter\<close> make of \<open>p\<close> and of \<open>s\<close> on
  their own, the placeholders of \<open>s\<close> numbered on from those of \<open>p\<close>: the clause changes
  nothing around it.
\<close>

theorem DoFilter_pg_limit_offset:
  assumes a: "a \<noteq> []" "\<forall>c\<in>set a. is_digit c"
    and b: "b \<noteq> []" "\<forall>c\<in>set b. is_digit c"
    and ws: "\<forall>c\<in>set ws. is_space c"
    and s: "takeWhile is_digit s = []"
  shows "DoFilter_pg (p @ '' LIMIT '' @ a @ '','' @ ws @ b @ s) args
       = Inr (replace_all match_limit (replace_all match_jsonb (replace_placeholders 0 p))
              @ '' LIMIT '' @ b @ '' OFFSET '' @ a
              @ replace_all match_limit (replace_all match_jsonb
                  (replace_placeholders (count_list p CHR ''?'') s)), args)"
proof -
  define C where "C = '' LIMIT '' @ a @ '','' @ ws @ b"
  define k where "k = count_list p CHR ''?''"
  define P1 where "P1 = replace_placeholders 0 p"
  define S1 where "S1 = replace_placeholders k s"
  define P2 where "P2 = replace_all match_jsonb P1"
  define S2 where "S2 = replace_all match_jsonb S1"
  have nq: "\<not> is_digit CHR ''?''" "\<not> is_digit CHR '':''"
    "\<not> is_space CHR ''?''" "\<not> is_space CHR '':''"
    by (simp_all add: is_digit_def is_space_def)
  have "CHR ''?'' \<notin> set a" "CHR ''?'' \<notin> set b" "CHR ''?'' \<notin> set ws"
    "CHR '':'' \<notin> set a" "CHR '':'' \<notin> set b" "CHR '':'' \<notin> set ws"
    using a(2) b(2) ws nq by blast+
  then have Cq: "CHR ''?'' \<notin> set C" and Cc: "CHR '':'' \<notin> set C"
    by (simp_all add: C_def)
  obtain C' where CL: "C = CHR '' '' # CHR ''L'' # C'" by (simp add: C_def)
  have sql: "p @ '' LIMIT '' @ a @ '','' @ ws @ b @ s = p @ C @ s" by (simp add: C_def)
  have "count_list C CHR ''?'' = 0" using Cq by (simp add: count_list_0_iff)
  then have 1: "replace_placeholders 0 (p @ C @ s) = P1 @ C @ S1"
    using Cq by (simp add: replace_placeholders_append replace_placeholders_none
        P1_def S1_def k_def)
  have "replace_all match_jsonb (P1 @ C @ S1)
      = replace_all match_jsonb P1 @ replace_all match_jsonb (C @ S1)"
    unfolding CL append_Cons
    by (rule replace_all_append_ctx) (simp_all add: match_jsonb_ctx match_jsonb_shorter)
  then have 2: "replace_all match_jsonb (P1 @ C @ S1) = P2 @ C @ S2"
    using Cc by (simp add: jsonb_no_colon P2_def S2_def)
  have S2: "takeWhile is_digit S2 = []"
    unfolding S2_def S1_def
    by (intro no_digit_head_jsonb no_digit_head_placeholders s)
  have "match_limit (C @ S2) = Some ('' LIMIT '' @ b @ '' OFFSET '' @ a, S2)"
    using match_limit_clause[OF a b ws S2] by (simp add: C_def)
  moreover have "length S2 < length (C @ S2)" by (simp add: C_def)
  ultimately have 3: "replace_all match_limit (C @ S2)
      = ('' LIMIT '' @ b @ '' OFFSET '' @ a) @ replace_all match_limit S2"
    by (rule replace_all_Some)
  have "replace_all match_limit (P2 @ C @ S2)
      = replace_all match_limit P2 @ replace_all match_limit (C @ S2)"
    unfolding CL append_Cons
    by (rule replace_all_append_ctx) (simp_all add: match_limit_ctx match_limit_shorter)
  with 3 have 4: "replace_all match_limit (P2 @ C @ S2)
      = replace_all match_limit P2 @ '' LIMIT '' @ b @ '' OFFSET '' @ a
          @ replace_all match_limit S2"
    by simp
  show ?thesis
    unfolding sql DoFilter_pg_def Core_DoFilter_def Let_def 1 2 4
    by (simp add: P2_def S2_def P1_def S1_def k_def)
qed

text \<open>The example of the specification, behind a placeholder.\<close>

theorem DoFilter_pg_limit_offset_witness:
  "DoFilter_pg ''SELECT * FROM t WHERE a=? LIMIT 10,5'' [VInt 1]
     = Inr (''SELECT * FROM t WHERE a=$1 LIMIT 5 OFFSET 10'', [VInt 1])"
proof -
  have "DoFilter_pg (''SELECT * FROM t WHERE a=?'' @ '' LIMIT '' @ ''10'' @ '','' @ [] @ ''5'' @ [])
          [VInt 1]
       = Inr (replace_all match_limit (replace_all match_jsonb
                (replace_placeholders 0 ''SELECT * FROM t WHERE a=?''))
              @ '' LIMIT '' @ ''5'' @ '' OFFSET '' @ ''10''
              @ replace_all match_limit (replace_all match_jsonb
                  (replace_placeholders (count_list ''SELECT * FROM t WHERE a=?'' CHR ''?'') [])),
              [VInt 1])"
    by (rule DoFilter_pg_limit_offset) (simp_all add: is_digit_def)
  moreover have "replace_all match_limit (replace_all match_jsonb
                (replace_placeholders 0 ''SELECT * FROM t WHERE a=?''))
      = ''SELECT * FROM t WHERE a=$1''"
    by code_simp
  moreover have "replace_all match_limit (replace_all match_jsonb (replace_placeholders n []))
      = []" for n
    by (simp add: replace_all_Nil match_limit_def match_jsonb_def)
  ultimately show ?thesis by simp
qed

section \<open>Both drivers: numbering the placeholders\<close>

text \<open>
  The scan of \<open>replace_placeholders\<close> yields the statement the specification describes.
\<close>

lemma replace_placeholders_segment:
  "CHR ''?'' \<notin> set seg \<Longrightarrow>
     replace_placeholders n (seg @ t) = seg @ replace_placeholders n t"
  by (induction seg) auto

lemma replace_placeholders_Join:
  "\<forall>seg\<in>set segs. CHR ''?'' \<notin> set seg \<Longrightarrow>
     replace_placeholders n (Join segs ''?'') = spec_numbered (n + 1) segs"
proof (induction segs "''?''" arbitrary: n rule: Join.induct)
  case 1
  show ?case by simp
next
  case (2 x)
  then show ?case by (simp add: replace_placeholders_none)
next
  case (3 x y ys)
  then have "replace_placeholders (n + 1) (Join (y # ys) ''?'') = spec_numbered (n + 1 + 1) (y # ys)"
    by simp
  with 3 show ?case
    by (simp add: replace_placeholders_segment Let_def)
qed

lemma digit_char_is_digit: "n < 10 \<Longrightarrow> is_digit (digit_char n)"
  unfolding is_digit_def digit_char_def by (rule nth_mem) simp

lemma dec_digits: "\<forall>c\<in>set (dec n). is_digit c"
proof (induction n rule: dec.induct)
  case (1 n)
  show ?case
  proof (cases "n < 10")
    case True
    then show ?thesis by (subst dec.simps) (simp add: digit_char_is_digit)
  next
    case False
    with 1 show ?thesis by (subst dec.simps) (simp add: digit_char_is_digit)
  qed
qed

lemma prefix_replace_placeholders:
  "prefix u (replace_placeholders n s) \<Longrightarrow> CHR ''$'' \<notin> set u \<Longrightarrow> prefix u s"
proof (induction s arbitrary: u n)
  case Nil
  then show ?case by simp
next
  case (Cons c cs)
  show ?case
  proof (cases u)
    case Nil
    then show ?thesis by simp
  next
    case (Cons x u')
    with Cons.prems Cons.IH[of u'] show ?thesis
      by (auto simp: Let_def split: if_splits)
  qed
qed

lemma sublist_behind_digits:
  "sublist u (ds @ t) \<Longrightarrow> \<forall>c\<in>set ds. is_digit c \<Longrightarrow> u \<noteq> [] \<Longrightarrow> \<not> is_digit (hd u)
   \<Longrightarrow> sublist u t"
proof (induction ds)
  case Nil
  then show ?case by simp
next
  case (Cons d ds)
  from Cons.prems(1) have "prefix u (d # ds @ t) \<or> sublist u (ds @ t)"
    by (simp add: sublist_Cons_right)
  moreover have "\<not> prefix u (d # ds @ t)"
    using Cons.prems(2,3,4) by (cases u) auto
  ultimately show ?case using Cons by simp
qed

lemma sublist_replace_placeholders:
  "sublist u (replace_placeholders n s) \<Longrightarrow> u \<noteq> [] \<Longrightarrow> CHR ''$'' \<notin> set u
   \<Longrightarrow> \<not> is_digit (hd u) \<Longrightarrow> sublist u s"
proof (induction s arbitrary: n)
  case Nil
  then show ?case by simp
next
  case (Cons c cs)
  show ?case
  proof (cases "c = CHR ''?''")
    case True
    with Cons.prems(1)
    have "prefix u (CHR ''$'' # dec (n + 1) @ replace_placeholders (n + 1) cs)
        \<or> sublist u (dec (n + 1) @ replace_placeholders (n + 1) cs)"
      by (simp add: sublist_Cons_right Let_def)
    moreover have "\<not> prefix u (CHR ''$'' # dec (n + 1) @ replace_placeholders (n + 1) cs)"
      using Cons.prems(2,3) by (cases u) auto
    ultimately have "sublist u (replace_placeholders (n + 1) cs)"
      using sublist_behind_digits[OF _ dec_digits Cons.prems(2,4)] by blast
    then have "sublist u cs" using Cons.IH Cons.prems by blast
    then show ?thesis by (simp add: sublist_Cons_right)
  next
    case False
    with Cons.prems(1)
    have "prefix u (c # replace_placeholders n cs) \<or> sublist u (replace_placeholders n cs)"
      by (simp add: sublist_Cons_right)
    then show ?thesis
    proof
      assume "prefix u (c # replace_placeholders n cs)"
      then have "prefix u (replace_placeholders n (c # cs))" using False by simp
      then have "prefix u (c # cs)" using Cons.prems(3) by (rule prefix_replace_placeholders)
      then show ?thesis by (simp add: sublist_Cons_right)
    next
      assume "sublist u (replace_placeholders n cs)"
      then have "sublist u cs" using Cons.IH Cons.prems by blast
      then show ?thesis by (simp add: sublist_Cons_right)
    qed
  qed
qed

lemma match_jsonb_needs_prefix: "\<not> prefix ''::jsonb'' s \<Longrightarrow> match_jsonb s = None"
  by (simp add: match_jsonb_def Let_def)

lemma jsonb_absent:
  "\<not> sublist ''::jsonb'' t \<Longrightarrow> replace_all match_jsonb t = t"
proof (induction t)
  case Nil
  show ?case by (simp add: replace_all_Nil match_jsonb_def Let_def)
next
  case (Cons c cs)
  then have p: "\<not> prefix ''::jsonb'' (c # cs)" and q: "\<not> sublist ''::jsonb'' cs"
    by (simp_all add: sublist_Cons_right)
  from p have "match_jsonb (c # cs) = None" by (rule match_jsonb_needs_prefix)
  moreover from q have "replace_all match_jsonb cs = cs" by (rule Cons.IH)
  ultimately show ?case by (simp add: replace_all_None)
qed

text \<open>
  The \<open>UPDATE\<close> and \<open>DELETE\<close> rewrite of the ClickHouse driver keeps the table name of
  every match and replaces key words and white space only: the dollar signs and digits of
  a statement, in their order, are those of the rewritten statement.
\<close>

lemma filter_replace_all:
  assumes m: "\<And>s repl rest. m s = Some (repl, rest)
      \<Longrightarrow> \<exists>mt. s = mt @ rest \<and> mt \<noteq> [] \<and> filter K repl = filter K mt"
  shows "filter K (replace_all m s) = filter K s"
proof (induction s rule: length_induct)
  case (1 s)
  show ?case
  proof (cases "m s")
    case None
    show ?thesis
    proof (cases s)
      case Nil
      with None show ?thesis by (simp add: replace_all_Nil)
    next
      case (Cons c cs)
      with None 1 show ?thesis by (simp add: replace_all_None)
    qed
  next
    case (Some a)
    obtain repl rest where a: "a = (repl, rest)" by (cases a)
    from m[of s repl rest] Some a obtain mt
      where mt: "s = mt @ rest" "mt \<noteq> []" "filter K repl = filter K mt" by auto
    then have len: "length rest < length s" by simp
    then have "replace_all m s = repl @ replace_all m rest"
      using Some a by (simp add: replace_all_Some)
    moreover have "filter K (replace_all m rest) = filter K rest" using 1 len by simp
    ultimately show ?thesis using mt by (metis filter_append)
  qed
qed

lemma word_rune_prefix: "word_rune s = Some u \<Longrightarrow> prefix u s \<and> u \<noteq> []"
  by (cases s) (auto simp: word_rune_def split: if_splits)

lemma word_runes_prefix: "prefix (concat (word_runes s)) s"
proof (induction s rule: word_runes.induct)
  case (1 s)
  show ?case
  proof (cases "word_rune s")
    case None
    then show ?thesis by (subst word_runes.simps) simp
  next
    case (Some u)
    then obtain t where s: "s = u @ t" using word_rune_prefix by (auto simp: prefix_def)
    have "prefix (concat (word_runes (drop (length u) s))) (drop (length u) s)"
      using 1 Some by simp
    then have "prefix (u @ concat (word_runes t)) (u @ t)" using s by simp
    then show ?thesis using Some s by (subst word_runes.simps) simp
  qed
qed

lemma word_runes_split:
  "s = concat (word_runes s) @ drop (length (concat (word_runes s))) s"
proof -
  from word_runes_prefix[of s] obtain zs where z: "s = concat (word_runes s) @ zs"
    by (auto simp: prefix_def)
  then have "drop (length (concat (word_runes s))) s = zs"
    by (metis append_eq_conv_conj)
  with z show ?thesis by simp
qed

lemma match_table_split: "match_table s = Some (name, r) \<Longrightarrow> s = name @ r"
proof -
  assume a: "match_table s = Some (name, r)"
  define w1 where "w1 = concat (word_runes s)"
  define r0 where "r0 = drop (length w1) s"
  define w2 where "w2 = concat (word_runes (drop 1 r0))"
  have s: "s = w1 @ r0" unfolding w1_def r0_def by (rule word_runes_split)
  have r1: "drop 1 r0 = w2 @ drop (length w2) (drop 1 r0)"
    unfolding w2_def by (rule word_runes_split)
  have mt: "match_table s =
      (if word_runes s = [] then None
       else if prefix ''.'' r0 \<and> word_runes (drop 1 r0) \<noteq> []
       then Some (w1 @ ''.'' @ w2, drop (length w2) (drop 1 r0))
       else if 2 \<le> length (word_runes s) then Some (w1, r0)
       else None)"
    by (simp add: match_table_def Let_def w1_def r0_def w2_def)
  show ?thesis
  proof (cases "prefix ''.'' r0 \<and> word_runes (drop 1 r0) \<noteq> []")
    case True
    with a mt have n: "name = w1 @ ''.'' @ w2" "r = drop (length w2) (drop 1 r0)"
      by (simp_all split: if_splits)
    from True obtain t where t: "r0 = CHR ''.'' # t" by (auto simp: prefix_def)
    with r1 have "t = w2 @ drop (length w2) t" by simp
    then have "r0 = ''.'' @ w2 @ drop (length w2) (drop 1 r0)" using t by simp
    with s n show ?thesis by simp
  next
    case False
    with a mt have "name = w1" "r = r0" by (simp_all split: if_splits)
    with s show ?thesis by simp
  qed
qed

lemma marker_upper: "marker_byte c \<Longrightarrow> ascii_upper c = c"
proof -
  assume "marker_byte c"
  then have "c \<in> set ''$0123456789''" by (simp add: marker_byte_def is_digit_def)
  then have "c \<notin> set ''abcdefghijklmnopqrstuvwxyz''" by auto
  then show ?thesis by (simp add: ascii_upper_def)
qed

lemma ci_prefix_no_marker:
  assumes "ci_prefix lit s" and "length lit = n" and "\<forall>c\<in>set lit. \<not> marker_byte c"
  shows "filter marker_byte (take n s) = []"
proof -
  have "\<not> marker_byte c" if c: "c \<in> set (take n s)" for c
  proof
    assume k: "marker_byte c"
    from c have c': "c \<in> set (take (length lit) s)" using assms(2) by simp
    from assms(1) have "map ascii_upper (take (length lit) s) = lit"
      by (simp add: ci_prefix_def)
    then have "set lit = ascii_upper ` set (take (length lit) s)" by (metis set_map)
    with c' have "ascii_upper c \<in> set lit" by blast
    then have "c \<in> set lit" using marker_upper[OF k] by simp
    with assms(3) k show False by blast
  qed
  then show ?thesis by (simp add: filter_empty_conv)
qed

lemma spaces_no_marker: "filter marker_byte (takeWhile is_space s) = []"
proof -
  have "\<not> marker_byte c" if "c \<in> set (takeWhile is_space s)" for c
  proof -
    from that have "is_space c" by (auto dest: set_takeWhileD)
    then show ?thesis by (auto simp: is_space_def marker_byte_def is_digit_def)
  qed
  then show ?thesis by (simp add: filter_empty_conv)
qed

lemma match_SET_split:
  assumes "match_SET x = Some rest"
  shows "\<exists>kw. x = kw @ rest \<and> filter marker_byte kw = []"
proof (cases "ci_prefix ''SET'' x")
  case True
  with assms have r: "rest = drop 3 x" by (simp add: match_SET_def)
  have "filter marker_byte (take 3 x) = []"
    using True by (rule ci_prefix_no_marker) (simp_all add: marker_byte_def is_digit_def)
  then have "x = take 3 x @ rest \<and> filter marker_byte (take 3 x) = []" using r by simp
  then show ?thesis by blast
next
  case False
  with assms have p: "take 2 x = [CHR 0xC5, CHR 0xBF]" and e: "ci_prefix ''ET'' (drop 2 x)"
    and r: "rest = drop 4 x"
    by (simp_all add: match_SET_def split: if_splits)
  have "filter marker_byte (take 2 (drop 2 x)) = []"
    using e by (rule ci_prefix_no_marker) (simp_all add: marker_byte_def is_digit_def)
  moreover have "filter marker_byte (take 2 x) = []"
    unfolding p by (simp add: marker_byte_def is_digit_def)
  moreover have "x = (take 2 x @ take 2 (drop 2 x)) @ rest"
  proof -
    have "(take 2 x @ take 2 (drop 2 x)) @ drop 4 x
        = take 2 x @ (take 2 (drop 2 x) @ drop 2 (drop 2 x))" by simp
    also have "\<dots> = x" by (simp only: append_take_drop_id)
    finally show ?thesis unfolding r by simp
  qed
  ultimately have "x = (take 2 x @ take 2 (drop 2 x)) @ rest
      \<and> filter marker_byte (take 2 x @ take 2 (drop 2 x)) = []" by simp
  then show ?thesis by blast
qed

lemma match_update_split:
  assumes "match_update s = Some (name, rest)"
  shows "\<exists>mt. s = mt @ rest \<and> mt \<noteq> [] \<and> filter marker_byte mt = filter marker_byte name"
proof -
  define x where "x = dropWhile is_space (drop 6 s)"
  from assms have kw: "ci_prefix ''UPDATE'' s"
    by (simp add: match_update_def split: if_splits)
  from assms kw obtain r where t: "match_table x = Some (name, r)"
    and st: "match_SET (dropWhile is_space r) = Some rest"
    unfolding match_update_def x_def[symmetric]
    by (auto split: if_splits option.splits)
  from match_SET_split[OF st] obtain k where k: "dropWhile is_space r = k @ rest"
    "filter marker_byte k = []" by blast
  have 1: "s = take 6 s @ takeWhile is_space (drop 6 s) @ x"
    unfolding x_def by simp
  have 2: "x = name @ r" using t by (rule match_table_split)
  have 3: "r = takeWhile is_space r @ k @ rest"
    using k(1) by (metis takeWhile_dropWhile_id)
  let ?mt = "take 6 s @ takeWhile is_space (drop 6 s) @ name @ takeWhile is_space r @ k"
  have a: "s = ?mt @ rest" using 1 2 3 by (metis append.assoc)
  have b: "?mt \<noteq> []" using kw by (auto simp: ci_prefix_def)
  have "filter marker_byte (take 6 s) = []"
    using kw by (rule ci_prefix_no_marker) (simp_all add: marker_byte_def is_digit_def)
  then have c: "filter marker_byte ?mt = filter marker_byte name"
    using k(2) by (simp add: spaces_no_marker)
  from a b c show ?thesis by blast
qed

lemma match_delete_split:
  assumes "match_delete s = Some (name, rest)"
  shows "\<exists>mt. s = mt @ rest \<and> mt \<noteq> [] \<and> filter marker_byte mt = filter marker_byte name"
proof -
  define x where "x = dropWhile is_space (drop 6 s)"
  define y where "y = dropWhile is_space (drop 4 x)"
  from assms have kw: "ci_prefix ''DELETE'' s" and fr: "ci_prefix ''FROM'' x"
    and t: "match_table y = Some (name, rest)"
    unfolding match_delete_def x_def[symmetric] y_def[symmetric]
    by (simp_all split: if_splits)
  have 1: "s = take 6 s @ takeWhile is_space (drop 6 s) @ x"
    unfolding x_def by simp
  have 2: "x = take 4 x @ takeWhile is_space (drop 4 x) @ y"
    unfolding y_def by simp
  have 3: "y = name @ rest" using t by (rule match_table_split)
  let ?mt = "take 6 s @ takeWhile is_space (drop 6 s) @ take 4 x
               @ takeWhile is_space (drop 4 x) @ name"
  have a: "s = ?mt @ rest" using 1 2 3 by (metis append.assoc)
  have b: "?mt \<noteq> []" using kw by (auto simp: ci_prefix_def)
  have "filter marker_byte (take 6 s) = []"
    using kw by (rule ci_prefix_no_marker) (simp_all add: marker_byte_def is_digit_def)
  moreover have "filter marker_byte (take 4 x) = []"
    using fr by (rule ci_prefix_no_marker) (simp_all add: marker_byte_def is_digit_def)
  ultimately have c: "filter marker_byte ?mt = filter marker_byte name"
    by (simp add: spaces_no_marker)
  from a b c show ?thesis by blast
qed

lemma replace_update_markers:
  "filter marker_byte (replace_update s) = filter marker_byte s"
  unfolding replace_update_def
proof (rule filter_replace_all)
  fix s repl rest
  assume "map_option (\<lambda>(name, rest). (''ALTER TABLE '' @ name @ '' UPDATE'', rest))
            (match_update s) = Some (repl, rest)"
  then obtain name where n: "match_update s = Some (name, rest)"
    and r: "repl = ''ALTER TABLE '' @ name @ '' UPDATE''" by auto
  from match_update_split[OF n] r
  show "\<exists>mt. s = mt @ rest \<and> mt \<noteq> [] \<and> filter marker_byte repl = filter marker_byte mt"
    by (auto simp: marker_byte_def is_digit_def)
qed

lemma replace_delete_markers:
  "filter marker_byte (replace_delete s) = filter marker_byte s"
  unfolding replace_delete_def
proof (rule filter_replace_all)
  fix s repl rest
  assume "map_option (\<lambda>(name, rest). (''ALTER TABLE '' @ name @ '' DELETE'', rest))
            (match_delete s) = Some (repl, rest)"
  then obtain name where n: "match_delete s = Some (name, rest)"
    and r: "repl = ''ALTER TABLE '' @ name @ '' DELETE''" by auto
  from match_delete_split[OF n] r
  show "\<exists>mt. s = mt @ rest \<and> mt \<noteq> [] \<and> filter marker_byte repl = filter marker_byte mt"
    by (auto simp: marker_byte_def is_digit_def)
qed

lemma rewrite_grammar_markers:
  "filter marker_byte (rewrite_grammar s) = filter marker_byte s"
  by (simp add: rewrite_grammar_def replace_update_markers replace_delete_markers
      split: option.split)

text \<open>
  Where the placeholders are numbered as they stand. A statement is segments without
  \<open>?\<close>, joined by \<open>?\<close>. With a non-empty parameter list, the ClickHouse \<open>DoFilter\<close> returns
  the segments joined by \<open>$1\<close>, \<open>$2\<close>, ... in this order, and, when the needs-rewrite flag
  is set, applies the \<open>UPDATE\<close> and \<open>DELETE\<close> rewrite to that numbered statement, which
  leaves every marker in its place among the dollar signs and digits. The PostgreSQL
  \<open>DoFilter\<close> returns the parameter list as it is for every statement, and for a
  statement in which \<open>::jsonb\<close> does not occur the segments joined by \<open>$1\<close>, \<open>$2\<close>, ...
  with the pagination rewrite applied to that numbered statement.
\<close>

lemma DoFilter_numbers_placeholders:
  assumes segs: "\<forall>seg\<in>set segs. CHR ''?'' \<notin> set seg"
    and args: "args \<noteq> []"
  shows "(\<exists>newSql. DoFilter_ch ctx (Join segs ''?'') args = Inr (newSql, args)
            \<and> newSql = (if getNeedParsedSqlFromCtx ctx
                         then rewrite_grammar (spec_numbered 1 segs)
                         else spec_numbered 1 segs)
            \<and> filter marker_byte newSql = filter marker_byte (spec_numbered 1 segs))
       \<and> (\<exists>newSql. DoFilter_pg (Join segs ''?'') args = Inr (newSql, args))
       \<and> (\<not> Contains (Join segs ''?'') ''::jsonb'' \<longrightarrow>
            DoFilter_pg (Join segs ''?'') args
              = Inr (replace_all match_limit (spec_numbered 1 segs), args))"
proof -
  have n: "replace_placeholders 0 (Join segs ''?'') = spec_numbered 1 segs"
    using replace_placeholders_Join[OF segs, of 0] by simp
  have "DoFilter_ch ctx (Join segs ''?'') args
           = Inr (if getNeedParsedSqlFromCtx ctx then rewrite_grammar (spec_numbered 1 segs)
                  else spec_numbered 1 segs, args)"
    using args by (simp add: DoFilter_ch_def Let_def n)
  moreover have "filter marker_byte
        (if getNeedParsedSqlFromCtx ctx then rewrite_grammar (spec_numbered 1 segs)
         else spec_numbered 1 segs) = filter marker_byte (spec_numbered 1 segs)"
    by (simp add: rewrite_grammar_markers)
  ultimately have ch: "\<exists>newSql. DoFilter_ch ctx (Join segs ''?'') args = Inr (newSql, args)
            \<and> newSql = (if getNeedParsedSqlFromCtx ctx
                         then rewrite_grammar (spec_numbered 1 segs)
                         else spec_numbered 1 segs)
            \<and> filter marker_byte newSql = filter marker_byte (spec_numbered 1 segs)"
    by blast
  have pg: "\<exists>newSql. DoFilter_pg (Join segs ''?'') args = Inr (newSql, args)"
    by (simp add: DoFilter_pg_def Core_DoFilter_def Let_def)
  have js: "DoFilter_pg (Join segs ''?'') args
              = Inr (replace_all match_limit (spec_numbered 1 segs), args)"
    if "\<not> Contains (Join segs ''?'') ''::jsonb''"
  proof -
    have "\<not> sublist ''::jsonb'' (replace_placeholders 0 (Join segs ''?''))"
    proof
      assume "sublist ''::jsonb'' (replace_placeholders 0 (Join segs ''?''))"
      then have "sublist ''::jsonb'' (Join segs ''?'')"
        by (rule sublist_replace_placeholders) (simp_all add: is_digit_def)
      with that show False by (simp add: Contains_def)
    qed
    then have "replace_all match_jsonb (spec_numbered 1 segs) = spec_numbered 1 segs"
      unfolding n by (rule jsonb_absent)
    then show ?thesis by (simp add: DoFilter_pg_def Core_DoFilter_def Let_def n)
  qed
  from ch pg js show ?thesis by blast
qed

text \<open>Two placeholders: without the flag, with the flag, and in the PostgreSQL driver.\<close>

lemma DoFilter_numbers_placeholders_example:
  "DoFilter_ch Map.empty ''SELECT * FROM t WHERE a=? AND b=?'' [VInt 1, VInt 2]
     = Inr (''SELECT * FROM t WHERE a=$1 AND b=$2'', [VInt 1, VInt 2])
   \<and> DoFilter_ch (injectNeedParsedSql Map.empty) ''UPDATE tt SET a=? WHERE b=?''
       [VInt 1, VInt 2]
     = Inr (''ALTER TABLE tt UPDATE a=$1 WHERE b=$2'', [VInt 1, VInt 2])
   \<and> DoFilter_pg ''SELECT * FROM t WHERE a=? AND b=?'' [VInt 1, VInt 2]
     = Inr (''SELECT * FROM t WHERE a=$1 AND b=$2'', [VInt 1, VInt 2])"
proof -
  let ?segs = "[''SELECT * FROM t WHERE a='', '' AND b='', []]"
  let ?upd = "[''UPDATE tt SET a='', '' WHERE b='', []]"
  have j: "Join ?segs ''?'' = ''SELECT * FROM t WHERE a=? AND b=?''"
    and ju: "Join ?upd ''?'' = ''UPDATE tt SET a=? WHERE b=?''" by simp_all
  have s: "spec_numbered 1 ?segs = ''SELECT * FROM t WHERE a=$1 AND b=$2''" by code_simp
  have su: "rewrite_grammar (spec_numbered 1 ?upd) = ''ALTER TABLE tt UPDATE a=$1 WHERE b=$2''"
    by code_simp
  have l: "replace_all match_limit ''SELECT * FROM t WHERE a=$1 AND b=$2''
         = ''SELECT * FROM t WHERE a=$1 AND b=$2''" by code_simp
  have f: "\<not> getNeedParsedSqlFromCtx Map.empty"
    and fu: "getNeedParsedSqlFromCtx (injectNeedParsedSql Map.empty)"
    by (simp_all add: getNeedParsedSqlFromCtx_def injectNeedParsedSql_def)
  have c: "\<not> Contains (Join ?segs ''?'') ''::jsonb''"
    unfolding j Contains_def by (simp add: sublist_Cons_right)
  have "\<forall>seg\<in>set ?segs. CHR ''?'' \<notin> set seg" by simp
  from DoFilter_numbers_placeholders[OF this, of "[VInt 1, VInt 2]" Map.empty] c f
  have 1: "DoFilter_ch Map.empty ''SELECT * FROM t WHERE a=? AND b=?'' [VInt 1, VInt 2]
     = Inr (''SELECT * FROM t WHERE a=$1 AND b=$2'', [VInt 1, VInt 2])
   \<and> DoFilter_pg ''SELECT * FROM t WHERE a=? AND b=?'' [VInt 1, VInt 2]
     = Inr (''SELECT * FROM t WHERE a=$1 AND b=$2'', [VInt 1, VInt 2])"
    unfolding j s l by simp
  have "\<forall>seg\<in>set ?upd. CHR ''?'' \<notin> set seg" by simp
  from DoFilter_numbers_placeholders[OF this, of "[VInt 1, VInt 2]" "injectNeedParsedSql Map.empty"] fu
  have 2: "DoFilter_ch (injectNeedParsedSql Map.empty) ''UPDATE tt SET a=? WHERE b=?''
       [VInt 1, VInt 2]
     = Inr (''ALTER TABLE tt UPDATE a=$1 WHERE b=$2'', [VInt 1, VInt 2])"
    unfolding ju su by simp
  from 1 2 show ?thesis by simp
qed

text \<open>
  A cast to \<open>jsonb\<close> with a word character behind it is out of the pattern's reach: the
  placeholder of such a statement is numbered.
\<close>

lemma DoFilter_pg_jsonb_cast_numbered:
  "DoFilter_pg ''SELECT data::jsonb FROM t WHERE id = ?'' [VInt 7]
     = Inr (''SELECT data::jsonb FROM t WHERE id = $1'', [VInt 7])"
  by code_simp

text \<open>
  C1 says that in both drivers the \<open>i\<close>-th \<open>?\<close> becomes \<open>$i\<close>. In the PostgreSQL driver the
  pattern \<open>(::jsonb([^\w\d]*)\$\d)\<close>, written for the jsonb operator \<open>?\<close>, also takes a
  marker that stands for a bound parameter when nothing but bytes outside \<open>\w\<close> lie
  between \<open>::jsonb\<close> and it. With one bound parameter the placeholder of
  \<open>data::jsonb @> ?\<close> leaves \<open>DoFilter\<close> as \<open>?\<close>, where the ClickHouse driver gives \<open>$1\<close> for
  the same statement; with two bound parameters the second placeholder of
  \<open>VALUES (?::jsonb, ?)\<close> leaves it as \<open>?\<close>, not as \<open>$2\<close>.
\<close>

theorem DoFilter_pg_jsonb_real_placeholder:
  "DoFilter_pg ''SELECT * FROM t WHERE data::jsonb @> ?'' [VString ''{}'']
     = Inr (''SELECT * FROM t WHERE data::jsonb @> ?'', [VString ''{}''])
   \<and> DoFilter_ch Map.empty ''SELECT * FROM t WHERE data::jsonb @> ?'' [VString ''{}'']
     = Inr (''SELECT * FROM t WHERE data::jsonb @> $1'', [VString ''{}''])
   \<and> DoFilter_pg ''INSERT INTO t(data, id) VALUES (?::jsonb, ?)'' [VString ''{}'', VInt 7]
     = Inr (''INSERT INTO t(data, id) VALUES ($1::jsonb, ?)'', [VString ''{}'', VInt 7])"
  by code_simp

end
